theory Spec2Isabelle
  imports Main "HOL-Library.Word"
begin

section \<open>Errors\<close>

text \<open>
  Go's \<^verbatim>\<open>error\<close> values, as far as the package creates or inspects them.
  \<^item> \<open>ErrOpenState\<close>, \<open>ErrTooManyRequests\<close>: the two sentinels of circuitbreaker.go.
  \<^item> \<open>DeadlineExceeded\<close>, \<open>Canceled\<close>: the two errors a \<^verbatim>\<open>context.Context\<close> reports.
  \<^item> \<open>ErrSyntax\<close>, \<open>ErrRange\<close>: the two failures of \<^verbatim>\<open>strconv.ParseInt\<close>.
  \<^item> \<open>New m\<close>: a leaf error with message \<open>m\<close> (\<^verbatim>\<open>errors.New\<close>, or
    \<^verbatim>\<open>fmt.Errorf\<close> without \<^verbatim>\<open>%w\<close>). Go compares such errors by pointer; the model
    compares them by message, which only matters between two leaves.
  \<^item> \<open>Wrap m e\<close>: \<^verbatim>\<open>fmt.Errorf("m: %w", e)\<close>, whose \<^verbatim>\<open>Unwrap\<close> gives \<open>e\<close>.
  \<^item> \<open>PermanentError e\<close>: \<^verbatim>\<open>backoff.Permanent(e)\<close>, the marker policy.go puts around
    a breaker rejection; its \<^verbatim>\<open>Unwrap\<close> gives \<open>e\<close>.
  A nil error is \<open>None :: error option\<close>.
\<close>

datatype error =
    ErrOpenState
  | ErrTooManyRequests
  | DeadlineExceeded
  | Canceled
  | ErrSyntax
  | ErrRange
  | New string
  | Wrap string error
  | PermanentError error

text \<open>
  The chain of an error: the error itself, then what it unwraps to (\<^verbatim>\<open>Unwrap\<close>),
  and so on down to a leaf.
\<close>

fun chain :: "error \<Rightarrow> error list" where
  "chain (Wrap m e) = Wrap m e # chain e"
| "chain (PermanentError e) = PermanentError e # chain e"
| "chain e = [e]"

fun is_PermanentError :: "error \<Rightarrow> bool" where
  "is_PermanentError (PermanentError e) = True"
| "is_PermanentError e = False"

text \<open>
  \<^verbatim>\<open>errors.Is(err, target)\<close> for a non-nil \<open>err\<close>: \<open>err == target\<close>, or the
  \<^verbatim>\<open>Is\<close> method of \<open>err\<close> accepts the target (only \<^verbatim>\<open>*PermanentError\<close> has one: it
  accepts every \<^verbatim>\<open>*PermanentError\<close>), or the same for what \<open>err\<close> unwraps to.
\<close>

fun errors_Is :: "error \<Rightarrow> error \<Rightarrow> bool" where
  "errors_Is (Wrap m e) target = (Wrap m e = target \<or> errors_Is e target)"
| "errors_Is (PermanentError e) target =
     (PermanentError e = target \<or> is_PermanentError target \<or> errors_Is e target)"
| "errors_Is e target = (e = target)"

text \<open>
  circuitbreaker.go:
  \<^verbatim>\<open>func IsErrorPermanent(err error) bool {
      return errors.Is(err, ErrOpenState) || errors.Is(err, ErrTooManyRequests) }\<close>
  \<^verbatim>\<open>errors.Is(nil, target)\<close> is false for a non-nil target.
\<close>

definition IsErrorPermanent :: "error option \<Rightarrow> bool" where
  "IsErrorPermanent err =
     (case err of
        None \<Rightarrow> False
      | Some e \<Rightarrow> errors_Is e ErrOpenState \<or> errors_Is e ErrTooManyRequests)"

text \<open>
  \<^verbatim>\<open>backoff.Permanent(err)\<close>: nil stays nil, any other error is wrapped.
\<close>

definition Permanent :: "error option \<Rightarrow> error option" where
  "Permanent err = (case err of None \<Rightarrow> None | Some e \<Rightarrow> Some (PermanentError e))"

text \<open>
  \<^verbatim>\<open>errors.As(err, &permanent)\<close> followed by \<^verbatim>\<open>permanent.Err\<close>: the error inside the
  first \<^verbatim>\<open>*PermanentError\<close> of the chain, if there is one.
\<close>

fun as_Permanent :: "error \<Rightarrow> error option" where
  "as_Permanent (PermanentError e) = Some e"
| "as_Permanent (Wrap m e) = as_Permanent e"
| "as_Permanent e = None"

section \<open>Durations\<close>

text \<open>
  A \<^verbatim>\<open>time.Duration\<close> is a signed 64-bit count of nanoseconds. The model keeps it as an
  \<open>int\<close> and writes the wrap-around out where the source multiplies.
\<close>

definition wrap64 :: "int \<Rightarrow> int" where
  "wrap64 x = (x + 2 ^ 63) mod 2 ^ 64 - 2 ^ 63"

definition Microsecond :: int where "Microsecond = 1000"
definition Millisecond :: int where "Millisecond = 1000 * Microsecond"
definition Second :: int where "Second = 1000 * Millisecond"

text \<open>
  \<^verbatim>\<open>strconv.ParseInt(s, 10, 64)\<close>: an optional sign, then one or more decimal digits,
  and the value must fit in 64 bits. \<open>digits\<close> is the digit loop of
  \<^verbatim>\<open>ParseUint\<close>; the library stops at the first overflow with a range error where the
  model reads on and reports the first bad character, so the two agree on whether an
  error is returned and on every value.
\<close>

definition isDigit :: "char \<Rightarrow> bool" where
  "isDigit c = (48 \<le> (of_char c :: nat) \<and> (of_char c :: nat) \<le> 57)"

fun digits :: "string \<Rightarrow> nat \<Rightarrow> nat option" where
  "digits [] acc = Some acc"
| "digits (c # cs) acc =
     (if isDigit c then digits cs (acc * 10 + (of_char c - 48)) else None)"

definition ParseInt :: "string \<Rightarrow> error + int" where
  "ParseInt s =
     (case s of
        [] \<Rightarrow> Inl ErrSyntax
      | c # cs \<Rightarrow>
          (let neg = (c = CHR ''-'');
               s' = (if c = CHR ''+'' \<or> c = CHR ''-'' then cs else s)
           in if s' = [] then Inl ErrSyntax
              else (case digits s' 0 of
                      None \<Rightarrow> Inl ErrSyntax
                    | Some un \<Rightarrow>
                        if \<not> neg \<and> un \<ge> 2 ^ 63 then Inl ErrRange
                        else if neg \<and> un > 2 ^ 63 then Inl ErrRange
                        else Inr (if neg then - int un else int un))))"

text \<open>
  The provider's \<^verbatim>\<open>parseDuration\<close>:
  \<^verbatim>\<open>if val == "" { return 0, nil }
  if i, err := strconv.ParseInt(val, 10, 64); err == nil {
      return time.Duration(i) * time.Microsecond, nil }
  return time.ParseDuration(val)\<close>
  \<^verbatim>\<open>time.ParseDuration\<close> belongs to Go's standard library (it parses fractions in
  floating point); it is the parameter \<open>pd\<close>. The product is a product of two
  \<^verbatim>\<open>int64\<close> values and wraps.
\<close>

definition parseDuration :: "(string \<Rightarrow> error + int) \<Rightarrow> string \<Rightarrow> error + int" where
  "parseDuration pd val =
     (if val = [] then Inr 0
      else (case ParseInt val of
              Inr i \<Rightarrow> Inr (wrap64 (i * Microsecond))
            | Inl err \<Rightarrow> pd val))"

section \<open>Contexts and the clock\<close>

text \<open>
  Time is an \<open>int\<close> of nanoseconds; \<^verbatim>\<open>time.Now()\<close> reads the \<open>clock\<close> of the
  world below. A \<^verbatim>\<open>context.Context\<close> is described by when it becomes done and with
  which error: \<open>Background\<close> never does, \<open>DoneAt t e\<close> is done from instant \<open>t\<close> on and
  then reports \<open>e\<close> (\<open>Canceled\<close> after a cancel, \<open>DeadlineExceeded\<close> after a
  deadline).
\<close>

datatype Context = Background | DoneAt int error

fun ctx_Err :: "Context \<Rightarrow> int \<Rightarrow> error option" where
  "ctx_Err Background now = None"
| "ctx_Err (DoneAt t e) now = (if t \<le> now then Some e else None)"

text \<open>
  \<^verbatim>\<open>context.WithTimeout(parent, d)\<close> called at \<open>now\<close>: the child is done when the
  parent is, or at \<open>now + d\<close>, whichever comes first.
\<close>

fun WithTimeout :: "Context \<Rightarrow> int \<Rightarrow> int \<Rightarrow> Context" where
  "WithTimeout Background d now = DoneAt (now + d) DeadlineExceeded"
| "WithTimeout (DoneAt t e) d now =
     (if t \<le> now + d then DoneAt t e else DoneAt (now + d) DeadlineExceeded)"

section \<open>The circuit breaker behind the policy\<close>

text \<open>
  Modelled from the spec: the breaker state machine of section 4.3 is not under src/;
  circuitbreaker.go only configures it (\<^verbatim>\<open>gobreaker.NewCircuitBreaker\<close>) and calls its
  \<^verbatim>\<open>Execute\<close>. The definitions of this section give that machine: closed, open and
  half-open states, the consecutive-failure counter that is cleared on a success and
  when the counting interval rolls over, the trip test of circuitbreaker.go
  (\<^verbatim>\<open>counts.ConsecutiveFailures >= failures\<close>), the cool-down after which an open
  breaker lets probes through, and the two rejection errors. They follow the
  dependency's own functions (\<^verbatim>\<open>beforeRequest\<close>, \<^verbatim>\<open>afterRequest\<close>,
  \<^verbatim>\<open>currentState\<close>, \<^verbatim>\<open>setState\<close>, \<^verbatim>\<open>toNewGeneration\<close>) and keep their names.
  Counters are \<^verbatim>\<open>uint32\<close>, the generation is \<^verbatim>\<open>uint64\<close>; the zero
  \<^verbatim>\<open>time.Time\<close> is \<open>None\<close>.
\<close>

datatype State = StateClosed | StateHalfOpen | StateOpen

record Counts =
  Requests :: "32 word"
  TotalSuccesses :: "32 word"
  TotalFailures :: "32 word"
  ConsecutiveSuccesses :: "32 word"
  ConsecutiveFailures :: "32 word"

record Settings =
  st_Name :: string
  st_MaxRequests :: "32 word"
  st_Interval :: int
  st_Timeout :: int
  st_failures :: "32 word"

record gobreaker =
  cb_name :: string
  cb_maxRequests :: "32 word"
  cb_interval :: int
  cb_timeout :: int
  cb_failures :: "32 word"
  cb_state :: State
  cb_generation :: "64 word"
  cb_counts :: Counts
  cb_expiry :: "int option"

definition clear :: Counts where
  "clear = \<lparr>Requests = 0, TotalSuccesses = 0, TotalFailures = 0,
            ConsecutiveSuccesses = 0, ConsecutiveFailures = 0\<rparr>"

definition onRequest :: "Counts \<Rightarrow> Counts" where
  "onRequest c = c\<lparr>Requests := Requests c + 1\<rparr>"

definition onSuccess :: "Counts \<Rightarrow> Counts" where
  "onSuccess c = c\<lparr>TotalSuccesses := TotalSuccesses c + 1,
                    ConsecutiveSuccesses := ConsecutiveSuccesses c + 1,
                    ConsecutiveFailures := 0\<rparr>"

definition onFailure :: "Counts \<Rightarrow> Counts" where
  "onFailure c = c\<lparr>TotalFailures := TotalFailures c + 1,
                    ConsecutiveFailures := ConsecutiveFailures c + 1,
                    ConsecutiveSuccesses := 0\<rparr>"

text \<open>
  The \<^verbatim>\<open>ReadyToTrip\<close> closure that circuitbreaker.go installs:
  \<^verbatim>\<open>tripFn := func(counts gobreaker.Counts) bool {
      return counts.ConsecutiveFailures >= failures }\<close>
\<close>

definition readyToTrip :: "gobreaker \<Rightarrow> Counts \<Rightarrow> bool" where
  "readyToTrip cb c = (ConsecutiveFailures c \<ge> cb_failures cb)"

definition defaultInterval :: int where "defaultInterval = 0"
definition defaultTimeout :: int where "defaultTimeout = 60 * Second"

definition toNewGeneration :: "int \<Rightarrow> gobreaker \<Rightarrow> gobreaker" where
  "toNewGeneration now cb =
     cb\<lparr>cb_generation := cb_generation cb + 1,
        cb_counts := clear,
        cb_expiry :=
          (case cb_state cb of
             StateClosed \<Rightarrow> (if cb_interval cb = 0 then None else Some (now + cb_interval cb))
           | StateOpen \<Rightarrow> Some (now + cb_timeout cb)
           | StateHalfOpen \<Rightarrow> None)\<rparr>"

definition setState :: "State \<Rightarrow> int \<Rightarrow> gobreaker \<Rightarrow> gobreaker" where
  "setState st now cb =
     (if cb_state cb = st then cb else toNewGeneration now (cb\<lparr>cb_state := st\<rparr>))"

definition before :: "int option \<Rightarrow> int \<Rightarrow> bool" where
  "before expiry now = (case expiry of None \<Rightarrow> True | Some e \<Rightarrow> e < now)"

definition currentState :: "int \<Rightarrow> gobreaker \<Rightarrow> gobreaker" where
  "currentState now cb =
     (case cb_state cb of
        StateClosed \<Rightarrow>
          (if cb_expiry cb \<noteq> None \<and> before (cb_expiry cb) now
           then toNewGeneration now cb else cb)
      | StateOpen \<Rightarrow>
          (if before (cb_expiry cb) now then setState StateHalfOpen now cb else cb)
      | StateHalfOpen \<Rightarrow> cb)"

definition beforeRequest :: "int \<Rightarrow> gobreaker \<Rightarrow> (64 word \<times> error option) \<times> gobreaker" where
  "beforeRequest now cb =
     (let cb1 = currentState now cb in
      if cb_state cb1 = StateOpen
        then ((cb_generation cb1, Some ErrOpenState), cb1)
      else if cb_state cb1 = StateHalfOpen \<and> Requests (cb_counts cb1) \<ge> cb_maxRequests cb1
        then ((cb_generation cb1, Some ErrTooManyRequests), cb1)
      else ((cb_generation cb1, None), cb1\<lparr>cb_counts := onRequest (cb_counts cb1)\<rparr>))"

definition cb_onSuccess :: "State \<Rightarrow> int \<Rightarrow> gobreaker \<Rightarrow> gobreaker" where
  "cb_onSuccess st now cb =
     (case st of
        StateClosed \<Rightarrow> cb\<lparr>cb_counts := onSuccess (cb_counts cb)\<rparr>
      | StateHalfOpen \<Rightarrow>
          (let cb1 = cb\<lparr>cb_counts := onSuccess (cb_counts cb)\<rparr> in
           if ConsecutiveSuccesses (cb_counts cb1) \<ge> cb_maxRequests cb1
           then setState StateClosed now cb1 else cb1)
      | StateOpen \<Rightarrow> cb)"

definition cb_onFailure :: "State \<Rightarrow> int \<Rightarrow> gobreaker \<Rightarrow> gobreaker" where
  "cb_onFailure st now cb =
     (case st of
        StateClosed \<Rightarrow>
          (let cb1 = cb\<lparr>cb_counts := onFailure (cb_counts cb)\<rparr> in
           if readyToTrip cb1 (cb_counts cb1) then setState StateOpen now cb1 else cb1)
      | StateHalfOpen \<Rightarrow> setState StateOpen now cb
      | StateOpen \<Rightarrow> cb)"

definition afterRequest :: "64 word \<Rightarrow> bool \<Rightarrow> int \<Rightarrow> gobreaker \<Rightarrow> gobreaker" where
  "afterRequest bef success now cb =
     (let cb1 = currentState now cb in
      if cb_generation cb1 \<noteq> bef then cb1
      else if success then cb_onSuccess (cb_state cb1) now cb1
      else cb_onFailure (cb_state cb1) now cb1)"

definition NewCircuitBreaker :: "Settings \<Rightarrow> int \<Rightarrow> gobreaker" where
  "NewCircuitBreaker st now =
     toNewGeneration now
       \<lparr>cb_name = st_Name st,
        cb_maxRequests = (if st_MaxRequests st = 0 then 1 else st_MaxRequests st),
        cb_interval = (if st_Interval st \<le> 0 then defaultInterval else st_Interval st),
        cb_timeout = (if st_Timeout st \<le> 0 then defaultTimeout else st_Timeout st),
        cb_failures = st_failures st,
        cb_state = StateClosed,
        cb_generation = 0,
        cb_counts = clear,
        cb_expiry = None\<rparr>"

section \<open>Operations and the world they run in\<close>

text \<open>
  policy.go: \<^verbatim>\<open>type Operation func(ctx context.Context) (any, error)\<close>.
  A call of an operation returns a payload and an error, or panics. What it reads and
  changes besides is the world: the clock (a call takes time), the breaker objects the
  policies point to (\<open>breakers\<close>, a store addressed by index), whatever the caller's
  closure captured (\<open>user\<close>), and a ghost counter \<open>calls\<close> of how often the caller's
  closure has been entered. The world also holds what the program cannot know in
  advance: \<open>picks\<close>, how the Go runtime settles, one after the other, the selects that
  find more than one of their cases ready (\<open>True\<close> for the context's case).
\<close>

datatype any = Nil | Str string | Num int

datatype result = Return any "error option" | Panic string

record 's world =
  clock :: int
  breakers :: "gobreaker list"
  calls :: nat
  user :: 's
  picks :: "nat \<Rightarrow> bool"

text \<open>
  A \<^verbatim>\<open>select\<close> over the \<^verbatim>\<open>Done\<close> channel of a context and one other channel (the
  result channel of the timeout guard, the timer of the retry loop), entered at \<open>now\<close>,
  the context being done at \<open>t\<close> and the other channel ready at \<open>r\<close>, which is not
  before \<open>now\<close>. The clock is as fine as a select can tell: what happens at two
  instants is seen in that order, the caller looks at the select at the instant it
  enters it and is woken at the instant a case becomes ready, and what takes no longer
  than the caller's way to the select, as an operation that returns without waiting,
  takes no time. The case that is ready alone when the select looks is taken: the
  other channel's when \<open>r\<close> is before \<open>t\<close>, the context's when the context is done, at
  \<open>t\<close> or on entry, before \<open>r\<close>. When both are ready at that moment (they become so at
  the same instant, or both are so on entry) the runtime takes either one: the next of
  the world's \<open>picks\<close> says which, and is used up. The result is whether the context's
  case is taken.
\<close>

definition select_done :: "int \<Rightarrow> int \<Rightarrow> int \<Rightarrow> 's world \<Rightarrow> bool \<times> 's world" where
  "select_done now t r w =
     (if r < t then (False, w)
      else if max t now < r then (True, w)
      else (picks w 0, w\<lparr>picks := \<lambda>n. picks w (Suc n)\<rparr>))"

type_synonym 's Operation = "Context \<Rightarrow> 's world \<Rightarrow> result \<times> 's world"

text \<open>
  The caller's closure: what it returns (or that it panics), how long it runs, and the
  captured state it leaves, as a function of how often it has been called before, of
  the context it is handed, of the instant it starts at and of its captured state.
  \<open>invoke f\<close> is the \<open>Operation\<close> that enters the closure once.
\<close>

type_synonym 's closure = "nat \<Rightarrow> Context \<Rightarrow> int \<Rightarrow> 's \<Rightarrow> result \<times> nat \<times> 's"

definition invoke :: "'s closure \<Rightarrow> 's Operation" where
  "invoke f ctx w =
     (case f (calls w) ctx (clock w) (user w) of
        (r, d, u) \<Rightarrow> (r, w\<lparr>clock := clock w + int d, calls := Suc (calls w), user := u\<rparr>))"

section \<open>Policies and their guards\<close>

text \<open>
  retry.go and policy.go:
  \<^verbatim>\<open>type retry struct { duration time.Duration; maxRetries int }
  type Policy struct { timeout time.Duration; retry *retry; circuitBreaker *circuitBreaker }\<close>
  A nil pointer is \<open>None\<close>; the breaker pointer is the address of the breaker object in
  the store.
\<close>

record retry =
  duration :: int
  maxRetries :: int

record Policy =
  timeout :: int
  retry :: "retry option"
  circuitBreaker :: "nat option"

definition nil_dereference :: result where
  "nil_dereference = Panic ''invalid memory address or nil pointer dereference''"

subsection \<open>The timeout guard\<close>

text \<open>
  policy.go, \<^verbatim>\<open>withTimeout\<close>: the operation runs in a goroutine of its own with the
  context \<^verbatim>\<open>context.WithTimeout(ctx, p.timeout)\<close>; a deferred \<^verbatim>\<open>recover\<close> turns a
  panic into the result \<^verbatim>\<open>{nil, fmt.Errorf("operation panicked: %v", r)}\<close>; the caller
  waits in
  \<^verbatim>\<open>select { case result := <-resultCh: return result.value, result.err
           case <-timeoutCtx.Done(): return nil, timeoutCtx.Err() }\<close>
  The select is \<open>select_done\<close>, entered when the guard starts, with the result channel
  ready when the operation is over: the result is taken when the operation is over
  before the context is done, the context's error when the context is done, at its
  instant or already when the guard starts, before the operation is over, and either
  of the two when both are there at the moment the select looks. When the context's
  case is taken, the goroutine still runs to its end: its effects on the world stay,
  and the caller goes on at the instant the context was done, or at the start of the
  guard if it was done before. An operation that never returns is outside the model.
\<close>

fun deliver :: "result \<Rightarrow> result" where
  "deliver (Return v e) = Return v e"
| "deliver (Panic m) = Return Nil (Some (New (''operation panicked: '' @ m)))"

definition withTimeout :: "Policy \<Rightarrow> 's Operation \<Rightarrow> 's Operation" where
  "withTimeout p oper ctx w =
     (let timeoutCtx = WithTimeout ctx (timeout p) (clock w) in
      case oper timeoutCtx w of
        (r, w') \<Rightarrow>
          (case timeoutCtx of
             Background \<Rightarrow> (deliver r, w')
           | DoneAt t e \<Rightarrow>
               (case select_done (clock w) t (clock w') w' of
                  (taken, w'') \<Rightarrow>
                    if taken then (Return Nil (Some e), w''\<lparr>clock := max t (clock w)\<rparr>)
                    else (deliver r, w''))))"

subsection \<open>The breaker guard\<close>

text \<open>
  Modelled from the spec: \<^verbatim>\<open>Execute\<close> of the breaker (section 4.3, not under src/).
  An open breaker, or a half-open one with its probes used up, returns the rejection
  error without calling the request; otherwise the request runs and its outcome is
  recorded, a panic as a failure before it goes on. The breaker sits at address \<open>a\<close>
  of the store.
\<close>

definition Execute :: "nat \<Rightarrow> ('s world \<Rightarrow> result \<times> 's world) \<Rightarrow> 's world \<Rightarrow> result \<times> 's world" where
  "Execute a req w =
     (if a \<ge> length (breakers w) then (nil_dereference, w)
      else
        (case beforeRequest (clock w) (breakers w ! a) of
           ((g, Some err), cb1) \<Rightarrow> (Return Nil (Some err), w\<lparr>breakers := (breakers w)[a := cb1]\<rparr>)
         | ((g, None), cb1) \<Rightarrow>
             (case req (w\<lparr>breakers := (breakers w)[a := cb1]\<rparr>) of
                (r, w2) \<Rightarrow>
                  (let success = (case r of Return v e \<Rightarrow> e = None | Panic m \<Rightarrow> False);
                       cb3 = afterRequest g success (clock w2) (breakers w2 ! a)
                   in (r, w2\<lparr>breakers := (breakers w2)[a := cb3]\<rparr>)))))"

text \<open>
  policy.go, \<^verbatim>\<open>withCircuitBreaker\<close>:
  \<^verbatim>\<open>res, err := p.circuitBreaker.breaker.Execute(func() (any, error) { return oper(ctx) })
  if p.retry != nil && IsErrorPermanent(err) { err = backoff.Permanent(err) }
  return res, err\<close>
\<close>

definition withCircuitBreaker :: "Policy \<Rightarrow> 's Operation \<Rightarrow> 's Operation" where
  "withCircuitBreaker p oper ctx w =
     (case circuitBreaker p of
        None \<Rightarrow> (nil_dereference, w)
      | Some a \<Rightarrow>
          (case Execute a (oper ctx) w of
             (Panic m, w') \<Rightarrow> (Panic m, w')
           | (Return res err, w') \<Rightarrow>
               (Return res (if retry p \<noteq> None \<and> IsErrorPermanent err then Permanent err else err),
                w')))"

subsection \<open>The retry loop\<close>

text \<open>
  Modelled from the spec: the delay sequence and the retry loop of section 4.2 are not
  under src/; retry.go only builds the sequence
  (\<^verbatim>\<open>NewConstantBackOff\<close>, \<^verbatim>\<open>WithMaxRetries\<close>, \<^verbatim>\<open>WithContext\<close>) and hands it to
  \<^verbatim>\<open>RetryWithData\<close>. A sequence yields the next delay or \<open>Stop\<close>, the dependency's
  sentinel of one negative nanosecond; the constant sequence yields its interval, the
  capped one stops after \<open>maxTries\<close> delays, the context-bound one stops once its
  context is done.
\<close>

datatype BackOff =
    ConstantBackOff int
  | backOffTries BackOff nat nat
  | backOffContext BackOff Context

definition Stop :: int where "Stop = - 1"

fun NextBackOff :: "BackOff \<Rightarrow> int \<Rightarrow> int \<times> BackOff" where
  "NextBackOff (ConstantBackOff i) now = (i, ConstantBackOff i)"
| "NextBackOff (backOffTries d maxTries numTries) now =
     (if maxTries = 0 then (Stop, backOffTries d maxTries numTries)
      else if maxTries \<le> numTries then (Stop, backOffTries d maxTries numTries)
      else (case NextBackOff d now of (n, d') \<Rightarrow> (n, backOffTries d' maxTries (numTries + 1))))"
| "NextBackOff (backOffContext b ctx) now =
     (if ctx_Err ctx now \<noteq> None then (Stop, backOffContext b ctx)
      else (case NextBackOff b now of (n, b') \<Rightarrow> (n, backOffContext b' ctx)))"

fun Reset :: "BackOff \<Rightarrow> BackOff" where
  "Reset (ConstantBackOff i) = ConstantBackOff i"
| "Reset (backOffTries d maxTries numTries) = backOffTries (Reset d) maxTries 0"
| "Reset (backOffContext b ctx) = backOffContext (Reset b) ctx"

fun getContext :: "BackOff \<Rightarrow> Context" where
  "getContext (backOffContext b ctx) = ctx"
| "getContext (backOffTries d maxTries numTries) = getContext d"
| "getContext (ConstantBackOff i) = Background"

text \<open>
  retry.go:
  \<^verbatim>\<open>var b backoff.BackOff = backoff.NewConstantBackOff(r.duration)
  if r.maxRetries >= 0 { b = backoff.WithMaxRetries(b, uint64(r.maxRetries)) }
  return backoff.WithContext(b, ctx)\<close>
\<close>

definition backoff :: "retry \<Rightarrow> Context \<Rightarrow> BackOff" where
  "backoff r ctx =
     backOffContext
       (if maxRetries r \<ge> 0
        then backOffTries (ConstantBackOff (duration r)) (nat (maxRetries r)) 0
        else ConstantBackOff (duration r))
       ctx"

text \<open>
  The wait between two attempts,
  \<^verbatim>\<open>select { case <-ctx.Done(): return res, ctx.Err(); case <-t.C(): }\<close>,
  with the timer set to \<open>next\<close>: the select is \<open>select_done\<close> again, the timer's channel
  being ready when the timer fires (at once for a delay that is not positive). The
  result is the context's error and the world at the instant the context was done, when
  the context's case is taken, and no error and the world at the instant the timer
  fired otherwise.
\<close>

definition await :: "Context \<Rightarrow> int \<Rightarrow> 's world \<Rightarrow> error option \<times> 's world" where
  "await ctx next w =
     (let fire = clock w + max next 0 in
      case ctx of
        Background \<Rightarrow> (None, w\<lparr>clock := fire\<rparr>)
      | DoneAt t e \<Rightarrow>
          (case select_done (clock w) t fire w of
             (taken, w') \<Rightarrow>
               if taken then (Some e, w'\<lparr>clock := max t (clock w)\<rparr>)
               else (None, w'\<lparr>clock := fire\<rparr>)))"

text \<open>
  One turn of the loop: call the operation; no error ends the loop with the result; a
  permanent error ends it with the error inside the marker; an exhausted sequence ends
  it with the context's error if the context is done and with the operation's error
  otherwise; else wait, and go round again unless the context interrupts the wait.
  \<open>Inl\<close> is what the loop returns, \<open>Inr\<close> the sequence and the world the next turn
  starts from. A panic of the operation leaves the loop as it is.
\<close>

definition attempt ::
  "('s world \<Rightarrow> result \<times> 's world) \<Rightarrow> BackOff \<Rightarrow> 's world
     \<Rightarrow> (result \<times> 's world) + (BackOff \<times> 's world)" where
  "attempt operation b w =
     (case operation w of
        (Panic m, w1) \<Rightarrow> Inl (Panic m, w1)
      | (Return res None, w1) \<Rightarrow> Inl (Return res None, w1)
      | (Return res (Some err), w1) \<Rightarrow>
          (case as_Permanent err of
             Some perr \<Rightarrow> Inl (Return res (Some perr), w1)
           | None \<Rightarrow>
               (case NextBackOff b (clock w1) of
                  (next, b') \<Rightarrow>
                    if next = Stop then
                      (case ctx_Err (getContext b') (clock w1) of
                         Some cerr \<Rightarrow> Inl (Return res (Some cerr), w1)
                       | None \<Rightarrow> Inl (Return res (Some err), w1))
                    else
                      (case await (getContext b') next w1 of
                         (Some cerr, w2) \<Rightarrow> Inl (Return res (Some cerr), w2)
                       | (None, w2) \<Rightarrow> Inr (b', w2)))))"

partial_function (option) RetryLoop ::
  "('s world \<Rightarrow> result \<times> 's world) \<Rightarrow> BackOff \<Rightarrow> 's world \<Rightarrow> (result \<times> 's world) option" where
  "RetryLoop operation b w =
     (case attempt operation b w of
        Inl r \<Rightarrow> Some r
      | Inr bw \<Rightarrow> RetryLoop operation (fst bw) (snd bw))"

definition RetryWithData ::
  "('s world \<Rightarrow> result \<times> 's world) \<Rightarrow> BackOff \<Rightarrow> 's world \<Rightarrow> (result \<times> 's world) option" where
  "RetryWithData operation b w = RetryLoop operation (Reset b) w"

text \<open>
  retry.go, \<^verbatim>\<open>OperationRetry\<close>, and policy.go, \<^verbatim>\<open>withRetry\<close>:
  \<^verbatim>\<open>return OperationRetry(func() (any, error) { return oper(ctx) }, p.retry.backoff(ctx))\<close>
  \<open>None\<close> is a loop that never ends.
\<close>

definition OperationRetry ::
  "('s world \<Rightarrow> result \<times> 's world) \<Rightarrow> BackOff \<Rightarrow> 's world \<Rightarrow> (result \<times> 's world) option" where
  "OperationRetry operation b w = RetryWithData (\<lambda>w. operation w) b w"

definition withRetry ::
  "Policy \<Rightarrow> Context \<Rightarrow> 's Operation \<Rightarrow> 's world \<Rightarrow> (result \<times> 's world) option" where
  "withRetry p ctx oper w =
     (case retry p of
        None \<Rightarrow> Some (nil_dereference, w)
      | Some r \<Rightarrow> OperationRetry (\<lambda>w. oper ctx w) (backoff r ctx) w)"

subsection \<open>The executor\<close>

text \<open>
  policy.go, \<^verbatim>\<open>NewExecutor\<close>:
  \<^verbatim>\<open>if policy == nil { return func(oper Operation) (any, error) { return oper(ctx) } }
  return func(oper Operation) (any, error) {
      operation := oper
      if policy.timeout > 0 { operation = policy.withTimeout(operation) }
      if policy.circuitBreaker != nil { operation = policy.withCircuitBreaker(operation) }
      if policy.retry == nil { return operation(ctx) }
      return policy.withRetry(ctx, operation) }\<close>
\<close>

definition NewExecutor ::
  "Context \<Rightarrow> Policy option \<Rightarrow> 's Operation \<Rightarrow> 's world \<Rightarrow> (result \<times> 's world) option" where
  "NewExecutor ctx policy oper w =
     (case policy of
        None \<Rightarrow> Some (oper ctx w)
      | Some p \<Rightarrow>
          (let operation = oper;
               operation = (if timeout p > 0 then withTimeout p operation else operation);
               operation = (if circuitBreaker p \<noteq> None
                            then withCircuitBreaker p operation else operation)
           in if retry p = None then Some (operation ctx w)
              else withRetry p ctx operation w))"

definition NewExecWithPolicy ::
  "Context \<Rightarrow> Policy option \<Rightarrow> 's Operation \<Rightarrow> 's world \<Rightarrow> (result \<times> 's world) option" where
  "NewExecWithPolicy ctx policy = NewExecutor ctx policy"

section \<open>Configuration and the provider\<close>

text \<open>
  The configuration types (\<^verbatim>\<open>Config\<close>, \<^verbatim>\<open>Retry\<close>, \<^verbatim>\<open>CircuitBreaker\<close>,
  \<^verbatim>\<open>PolicyNames\<close>) and the provider. A Go map that is only ranged over is the list
  of its entries in the order the range visits them; a map that is looked up is a HOL
  map.
\<close>

record Retry =
  Duration :: string
  MaxRetries :: int

record CircuitBreaker =
  MaxRequests :: int
  Interval :: string
  Timeout :: string
  Failures :: int

record PolicyNames =
  pn_Timeout :: string
  pn_Retry :: string
  pn_CircuitBreaker :: string

record Config =
  Timeouts :: "(string \<times> string) list"
  Retries :: "(string \<times> Retry) list"
  CircuitBreakers :: "(string \<times> CircuitBreaker) list"
  Targets :: "(string \<times> PolicyNames) list"

record target =
  t_timeout :: string
  t_retry :: string
  t_circuitBreaker :: string

record Provider =
  timeouts :: "string \<rightharpoonup> int"
  retries :: "string \<rightharpoonup> retry"
  circuitBreakers :: "string \<rightharpoonup> nat"
  targets :: "string \<rightharpoonup> target"

text \<open>
  retry.go, \<^verbatim>\<open>newRetry\<close>:
  \<^verbatim>\<open>duration, err := parseDuration(r.Duration)
  if err != nil { return nil, fmt.Errorf("invalid retry duration %s for '%q': %w", ...) }
  return &retry{duration, r.MaxRetries}, nil\<close>
\<close>

definition newRetry :: "(string \<Rightarrow> error + int) \<Rightarrow> string \<Rightarrow> Retry \<Rightarrow> error + retry" where
  "newRetry pd name r =
     (case parseDuration pd (Duration r) of
        Inl err \<Rightarrow> Inl (Wrap (''invalid retry duration '' @ Duration r @ '' for '' @ name) err)
      | Inr d \<Rightarrow> Inr \<lparr>duration = d, maxRetries = MaxRetries r\<rparr>)"

text \<open>
  circuitbreaker.go, \<^verbatim>\<open>newCircuitBreaker\<close>: both durations are parsed, the two counts
  are converted with \<^verbatim>\<open>uint32(...)\<close>, and a breaker is built and allocated; the
  result is its address. \<^verbatim>\<open>world\<close> gives the clock the new breaker reads and the
  store it is put in.
\<close>

definition newCircuitBreaker ::
  "(string \<Rightarrow> error + int) \<Rightarrow> string \<Rightarrow> CircuitBreaker \<Rightarrow> 's world \<Rightarrow> (error + nat) \<times> 's world" where
  "newCircuitBreaker pd name config w =
     (case parseDuration pd (Interval config) of
        Inl err \<Rightarrow> (Inl err, w)
      | Inr interval \<Rightarrow>
          (case parseDuration pd (Timeout config) of
             Inl err \<Rightarrow> (Inl err, w)
           | Inr tmo \<Rightarrow>
               (Inr (length (breakers w)),
                w\<lparr>breakers := breakers w @
                     [NewCircuitBreaker
                        \<lparr>st_Name = name,
                         st_MaxRequests = word_of_int (MaxRequests config),
                         st_Interval = interval,
                         st_Timeout = tmo,
                         st_failures = word_of_int (Failures config)\<rparr>
                        (clock w)]\<rparr>)))"

text \<open>
  The four loops of \<^verbatim>\<open>Provider.configure\<close>, each leaving at the first error.
\<close>

fun configure_timeouts ::
  "(string \<Rightarrow> error + int) \<Rightarrow> (string \<times> string) list \<Rightarrow> Provider \<Rightarrow> error + Provider" where
  "configure_timeouts pd [] p = Inr p"
| "configure_timeouts pd ((name, val) # rest) p =
     (case parseDuration pd val of
        Inl err \<Rightarrow> Inl (Wrap (''invalid timeout duration '' @ val @ '' for '' @ name) err)
      | Inr tmo \<Rightarrow> configure_timeouts pd rest (p\<lparr>timeouts := (timeouts p)(name \<mapsto> tmo)\<rparr>))"

fun configure_retries ::
  "(string \<Rightarrow> error + int) \<Rightarrow> (string \<times> Retry) list \<Rightarrow> Provider \<Rightarrow> error + Provider" where
  "configure_retries pd [] p = Inr p"
| "configure_retries pd ((name, retryCfg) # rest) p =
     (case newRetry pd name retryCfg of
        Inl err \<Rightarrow> Inl (Wrap (''failed to create retry for '' @ name) err)
      | Inr retryInstance \<Rightarrow>
          configure_retries pd rest (p\<lparr>retries := (retries p)(name \<mapsto> retryInstance)\<rparr>))"

fun configure_circuitBreakers ::
  "(string \<Rightarrow> error + int) \<Rightarrow> (string \<times> CircuitBreaker) list \<Rightarrow> Provider \<Rightarrow> 's world
     \<Rightarrow> (error + Provider) \<times> 's world" where
  "configure_circuitBreakers pd [] p w = (Inr p, w)"
| "configure_circuitBreakers pd ((name, cbCfg) # rest) p w =
     (case newCircuitBreaker pd name cbCfg w of
        (Inl err, w') \<Rightarrow> (Inl (Wrap (''failed to create circuit breaker for '' @ name) err), w')
      | (Inr cb, w') \<Rightarrow>
          configure_circuitBreakers pd rest
            (p\<lparr>circuitBreakers := (circuitBreakers p)(name \<mapsto> cb)\<rparr>) w')"

fun configure_targets :: "(string \<times> PolicyNames) list \<Rightarrow> Provider \<Rightarrow> Provider" where
  "configure_targets [] p = p"
| "configure_targets ((k, n) # rest) p =
     configure_targets rest
       (p\<lparr>targets := (targets p)(k \<mapsto>
            \<lparr>t_timeout = pn_Timeout n, t_retry = pn_Retry n,
             t_circuitBreaker = pn_CircuitBreaker n\<rparr>)\<rparr>)"

definition configure ::
  "(string \<Rightarrow> error + int) \<Rightarrow> Config \<Rightarrow> Provider \<Rightarrow> 's world \<Rightarrow> (error + Provider) \<times> 's world" where
  "configure pd cfg p w =
     (case configure_timeouts pd (Timeouts cfg) p of
        Inl err \<Rightarrow> (Inl err, w)
      | Inr p1 \<Rightarrow>
          (case configure_retries pd (Retries cfg) p1 of
             Inl err \<Rightarrow> (Inl err, w)
           | Inr p2 \<Rightarrow>
               (case configure_circuitBreakers pd (CircuitBreakers cfg) p2 w of
                  (Inl err, w') \<Rightarrow> (Inl err, w')
                | (Inr p3, w') \<Rightarrow> (Inr (configure_targets (Targets cfg) p3), w'))))"

text \<open>
  \<^verbatim>\<open>FromConfig\<close>: a provider with four empty maps is configured; on an error the
  provider is dropped (\<^verbatim>\<open>return nil, err\<close>).
\<close>

definition FromConfig ::
  "(string \<Rightarrow> error + int) \<Rightarrow> Config \<Rightarrow> 's world \<Rightarrow> (error + Provider) \<times> 's world" where
  "FromConfig pd cfg w =
     configure pd cfg
       \<lparr>timeouts = Map.empty, retries = Map.empty,
        circuitBreakers = Map.empty, targets = Map.empty\<rparr> w"

text \<open>
  \<^verbatim>\<open>Provider.Policy\<close>: an empty policy, filled in guard by guard when the target is
  known, names a guard and the guard is defined.
\<close>

definition Provider_Policy :: "Provider \<Rightarrow> string \<Rightarrow> Policy" where
  "Provider_Policy p tgt =
     (let policy = \<lparr>timeout = 0, retry = None, circuitBreaker = None\<rparr> in
      case targets p tgt of
        None \<Rightarrow> policy
      | Some cfg \<Rightarrow>
          (let policy =
                 (if t_timeout cfg \<noteq> [] then
                    (case timeouts p (t_timeout cfg) of
                       Some tmo \<Rightarrow> policy\<lparr>timeout := tmo\<rparr>
                     | None \<Rightarrow> policy)
                  else policy);
               policy =
                 (if t_retry cfg \<noteq> [] then
                    (case retries p (t_retry cfg) of
                       Some r \<Rightarrow> policy\<lparr>retry := Some r\<rparr>
                     | None \<Rightarrow> policy)
                  else policy);
               policy =
                 (if t_circuitBreaker cfg \<noteq> [] then
                    (case circuitBreakers p (t_circuitBreaker cfg) of
                       Some cb \<Rightarrow> policy\<lparr>circuitBreaker := Some cb\<rparr>
                     | None \<Rightarrow> policy)
                  else policy)
           in policy))"

section \<open>Notions used in the statements\<close>



text \<open>
  Successive calls through the breaker at address \<open>a\<close>, each entering the caller's
  closure \<open>f\<close>; before each call the caller lets some time pass (\<open>gaps\<close>).
\<close>

fun calls_through :: "nat \<Rightarrow> 's closure \<Rightarrow> Context \<Rightarrow> nat list \<Rightarrow> 's world \<Rightarrow> 's world" where
  "calls_through a f ctx [] w = w"
| "calls_through a f ctx (gap # gaps) w =
     calls_through a f ctx gaps
       (snd (Execute a (invoke f ctx) (w\<lparr>clock := clock w + int gap\<rparr>)))"

text \<open>
  How a call can end: \<open>fails_retryably\<close> with an error that is not marked permanent,
  \<open>fails\<close> with any error or a panic (what the breaker records as a failure),
  \<open>is_Panic\<close> with a panic.
\<close>

fun fails_retryably :: "result \<Rightarrow> bool" where
  "fails_retryably (Return v (Some e)) = (as_Permanent e = None)"
| "fails_retryably r = False"

fun fails :: "result \<Rightarrow> bool" where
  "fails (Return v None) = False"
| "fails r = True"

fun is_Panic :: "result \<Rightarrow> bool" where
  "is_Panic (Panic m) = True"
| "is_Panic r = False"

text \<open>
  The delay sequence \<^verbatim>\<open>retry.backoff\<close> builds for a retry with interval \<open>d\<close> and
  \<open>N \<ge> 0\<close> retries on the context \<open>ctx\<close>, after \<open>j\<close> delays have been handed out.
\<close>

definition capped :: "int \<Rightarrow> nat \<Rightarrow> nat \<Rightarrow> Context \<Rightarrow> BackOff" where
  "capped d N j ctx = backOffContext (backOffTries (ConstantBackOff d) N j) ctx"

text \<open>
  The world after \<open>n\<close> calls of the caller's closure on the context \<open>ctx\<close>, each followed
  by a full wait of \<open>d\<close> (no wait at all for a delay that is not positive): where the
  retry loop is after \<open>n\<close> failed attempts when nothing has ended it.
\<close>

fun after_attempts :: "'s closure \<Rightarrow> Context \<Rightarrow> int \<Rightarrow> nat \<Rightarrow> 's world \<Rightarrow> 's world" where
  "after_attempts f ctx d 0 w = w"
| "after_attempts f ctx d (Suc n) w =
     after_attempts f ctx d n
       ((snd (invoke f ctx w))\<lparr>clock := clock (snd (invoke f ctx w)) + max d 0\<rparr>)"

text \<open>
  The breaker at address \<open>a\<close> is closed, has counted \<open>k\<close> consecutive failures against
  the threshold \<open>F\<close>, its counting window ends at \<open>ex\<close> and its cool-down is \<open>T\<close>.
\<close>

definition counting :: "nat \<Rightarrow> nat \<Rightarrow> int option \<Rightarrow> int \<Rightarrow> nat \<Rightarrow> 's world \<Rightarrow> bool" where
  "counting a F ex T k w =
     (a < length (breakers w)
      \<and> cb_state (breakers w ! a) = StateClosed
      \<and> ConsecutiveFailures (cb_counts (breakers w ! a)) = of_nat k
      \<and> cb_failures (breakers w ! a) = of_nat F
      \<and> cb_expiry (breakers w ! a) = ex
      \<and> cb_timeout (breakers w ! a) = T)"

section \<open>Inputs taken from the package's tests\<close>

text \<open>
  The breaker of \<^verbatim>\<open>TestCircuitBreakerTripping\<close> (one probe, a 10s counting interval, a
  2s cool-down, two failures to trip), built at instant 0; a world that holds it, in
  which the runtime settles every select that has both cases ready for the context;
  the operation of that test, which fails at once; and the world after two such calls.
\<close>

definition test_cb :: gobreaker where
  "test_cb = NewCircuitBreaker
     \<lparr>st_Name = ''test_cb'', st_MaxRequests = 1, st_Interval = 10 * Second,
      st_Timeout = 2 * Second, st_failures = 2\<rparr> 0"

definition test_world :: "unit world" where
  "test_world = \<lparr>clock = 0, breakers = [test_cb], calls = 0, user = (), picks = \<lambda>n. True\<rparr>"

definition always_fails :: "unit closure" where
  "always_fails i ctx t u = (Return Nil (Some (New ''test error'')), 0, u)"

definition tripped_world :: "unit world" where
  "tripped_world = calls_through 0 always_fails Background [0, 0] test_world"

text \<open>
  A world without breakers at instant 0, with the same runtime; an operation that
  returns \<open>v\<close> after \<open>d\<close>
  nanoseconds (as the sleeping operation of \<^verbatim>\<open>TestResilienceTimeout\<close>), and one
  that panics after \<open>d\<close>; a \<^verbatim>\<open>time.ParseDuration\<close> for configurations that hold no
  duration expression.
\<close>

definition bare_world :: "unit world" where
  "bare_world = \<lparr>clock = 0, breakers = [], calls = 0, user = (), picks = \<lambda>n. True\<rparr>"

definition returns_after :: "nat \<Rightarrow> any \<Rightarrow> unit closure" where
  "returns_after d v i ctx t u = (Return v None, d, u)"

definition panics_after :: "nat \<Rightarrow> string \<Rightarrow> unit closure" where
  "panics_after d m i ctx t u = (Panic m, d, u)"

definition no_expression :: "string \<Rightarrow> error + int" where
  "no_expression s = Inl (New (''time: invalid duration '' @ s))"

text \<open>
  The configuration of \<^verbatim>\<open>TestRetryWithNoTargetConfig\<close> (a retry of three with a delay
  of 100ms, written as 100000 microseconds, and no target), and one whose only target
  names that retry, with one retry, and a timeout that is not defined.
\<close>

definition no_target_config :: Config where
  "no_target_config =
     \<lparr>Timeouts = [],
      Retries = [(''example_retry'', \<lparr>Duration = ''100000'', MaxRetries = 3\<rparr>)],
      CircuitBreakers = [], Targets = []\<rparr>"

definition dangling_config :: Config where
  "dangling_config =
     \<lparr>Timeouts = [],
      Retries = [(''example_retry'', \<lparr>Duration = ''100000'', MaxRetries = 1\<rparr>)],
      CircuitBreakers = [],
      Targets = [(''example_target'',
                  \<lparr>pn_Timeout = ''missing'', pn_Retry = ''example_retry'',
                   pn_CircuitBreaker = []\<rparr>)]\<rparr>"

text \<open>
  The operation of \<^verbatim>\<open>TestRetryWithSuccessAfterFailures\<close>: two failures, then
  \<^verbatim>\<open>"success"\<close>.
\<close>

definition succeeds_third :: "unit closure" where
  "succeeds_third i ctx t u =
     (if i < 2 then (Return Nil (Some (New ''temporary failure'')), 0, u)
      else (Return (Str ''success'') None, 0, u))"

section \<open>The permanence predicate\<close>

lemma errors_Is_chain:
  "\<not> is_PermanentError t \<Longrightarrow> errors_Is e t = (t \<in> set (chain e))"
  by (induction e) auto

text \<open>
  Claim C6, as the code has it: \<open>IsErrorPermanent err\<close> is true exactly when \<open>err\<close> is
  not nil and the open-state error or the too-many-requests error stands somewhere on
  its unwrap chain (the error itself, or an error it wraps); it is false for nil and
  for every error whose chain holds neither.
\<close>

theorem IsErrorPermanent_iff_on_chain:
  "IsErrorPermanent err =
     (\<exists>e. err = Some e \<and>
          (ErrOpenState \<in> set (chain e) \<or> ErrTooManyRequests \<in> set (chain e)))"
  by (cases err) (simp_all add: IsErrorPermanent_def errors_Is_chain)

text \<open>
  Claim C6 as it is written fails on an error that only wraps the open-state error:
  it is neither of the two sentinels, and the predicate is true of it.
\<close>

theorem IsErrorPermanent_wrapped_sentinel:
  "IsErrorPermanent (Some (Wrap ''call rejected'' ErrOpenState))
   \<and> Wrap ''call rejected'' ErrOpenState \<noteq> ErrOpenState
   \<and> Wrap ''call rejected'' ErrOpenState \<noteq> ErrTooManyRequests"
  by (simp add: IsErrorPermanent_def)

section \<open>The duration resolver\<close>

lemma wrap64_id: "- (2 ^ 63) \<le> x \<Longrightarrow> x < 2 ^ 63 \<Longrightarrow> wrap64 x = x"
  by (simp add: wrap64_def)

lemma parseDuration_empty: "parseDuration pd [] = Inr 0"
  by (simp add: parseDuration_def)

lemma parseDuration_integer:
  "val \<noteq> [] \<Longrightarrow> ParseInt val = Inr i \<Longrightarrow> \<bar>i\<bar> \<le> 9223372036854775 \<Longrightarrow>
   parseDuration pd val = Inr (i * Microsecond)"
  by (simp add: parseDuration_def Microsecond_def wrap64_id)

lemma parseDuration_other:
  "val \<noteq> [] \<Longrightarrow> ParseInt val = Inl err \<Longrightarrow> parseDuration pd val = pd val"
  by (simp add: parseDuration_def)

text \<open>
  Claim C8 at the bare integer 9223372036854776: read as a count of microseconds it is
  a little more than the longest duration there is, and \<^verbatim>\<open>parseDuration\<close> returns,
  without an error, the negative duration the 64-bit product wraps to.
\<close>

theorem parseDuration_wraps:
  "ParseInt ''9223372036854776'' = Inr 9223372036854776
   \<and> parseDuration pd ''9223372036854776'' = Inr (- 9223372036854775616)"
  by (simp add: parseDuration_def ParseInt_def isDigit_def wrap64_def Microsecond_def)

section \<open>Evaluating the model\<close>

lemmas ev = NewExecutor_def withRetry_def OperationRetry_def RetryWithData_def backoff_def
  attempt_def invoke_def always_fails_def succeeds_third_def test_world_def test_cb_def
  tripped_world_def bare_world_def returns_after_def panics_after_def
  Stop_def await_def select_done_def withTimeout_def
  withCircuitBreaker_def Execute_def beforeRequest_def afterRequest_def currentState_def
  cb_onFailure_def cb_onSuccess_def setState_def toNewGeneration_def NewCircuitBreaker_def
  onRequest_def onFailure_def onSuccess_def clear_def readyToTrip_def before_def
  defaultInterval_def defaultTimeout_def Second_def Millisecond_def Microsecond_def
  IsErrorPermanent_def Permanent_def Let_def word_le_nat_alt

section \<open>What one call of the caller's closure does\<close>

lemma invoke_result:
  "\<exists>w1. invoke f ctx w = (fst (f (calls w) ctx (clock w) (user w)), w1) \<and> calls w1 = Suc (calls w)"
  by (simp add: invoke_def split: prod.splits)

lemma invoke_fst: "fst (invoke f ctx w) = fst (f (calls w) ctx (clock w) (user w))"
  by (simp add: invoke_def split: prod.splits)

lemma invoke_clock: "clock w \<le> clock (snd (invoke f ctx w))"
  by (simp add: invoke_def split: prod.splits)

lemma invoke_calls: "calls (snd (invoke f ctx w)) = Suc (calls w)"
  by (simp add: invoke_def split: prod.splits)

lemma invoke_breakers: "breakers (snd (invoke f ctx w)) = breakers w"
  by (simp add: invoke_def split: prod.splits)

section \<open>The order of the guards\<close>

text \<open>
  Claim C1: the executor nests the guards in one fixed order. For a nil policy it is
  the operation itself. Otherwise the timeout guard is put around the raw operation
  exactly when the timeout is positive, the breaker guard around that exactly when the
  policy has a breaker, and the retry loop drives the result exactly when the policy
  has a retry; a guard that is absent adds nothing. With no guard at all the caller's
  closure is entered once, on the ambient context, and what it returns is returned.
\<close>

theorem NewExecutor_composition:
  "NewExecutor ctx policy oper w =
     (case policy of
        None \<Rightarrow> Some (oper ctx w)
      | Some p \<Rightarrow>
          (case (0 < timeout p, circuitBreaker p, retry p) of
             (False, None, None) \<Rightarrow> Some (oper ctx w)
           | (True, None, None) \<Rightarrow> Some (withTimeout p oper ctx w)
           | (False, Some a, None) \<Rightarrow> Some (withCircuitBreaker p oper ctx w)
           | (True, Some a, None) \<Rightarrow> Some (withCircuitBreaker p (withTimeout p oper) ctx w)
           | (False, None, Some r) \<Rightarrow> withRetry p ctx oper w
           | (True, None, Some r) \<Rightarrow> withRetry p ctx (withTimeout p oper) w
           | (False, Some a, Some r) \<Rightarrow> withRetry p ctx (withCircuitBreaker p oper) w
           | (True, Some a, Some r) \<Rightarrow>
               withRetry p ctx (withCircuitBreaker p (withTimeout p oper)) w))
   \<and> ((case policy of
          None \<Rightarrow> True
        | Some p \<Rightarrow> timeout p \<le> 0 \<and> circuitBreaker p = None \<and> retry p = None) \<longrightarrow>
        NewExecutor ctx policy (invoke f) w =
          Some (fst (f (calls w) ctx (clock w) (user w)),
                w\<lparr>clock := clock w + int (fst (snd (f (calls w) ctx (clock w) (user w)))),
                  calls := Suc (calls w),
                  user := snd (snd (f (calls w) ctx (clock w) (user w)))\<rparr>))"
  by (auto simp add: NewExecutor_def Let_def invoke_def
      split: option.splits bool.splits prod.splits)

theorem NewExecutor_composition_witness:
  "NewExecutor Background (Some \<lparr>timeout = 0, retry = None, circuitBreaker = None\<rparr>)
     (invoke always_fails) test_world
   = Some (Return Nil (Some (New ''test error'')), test_world\<lparr>calls := 1\<rparr>)"
  using NewExecutor_composition
    [of Background "Some \<lparr>timeout = 0, retry = None, circuitBreaker = None\<rparr>"
        "invoke always_fails" test_world always_fails, THEN conjunct2]
  by (simp add: always_fails_def test_world_def)

section \<open>The timeout guard\<close>

lemma deliver_not_Panic: "\<not> is_Panic (deliver r)"
  by (cases r) auto

lemma select_done_breakers: "breakers (snd (select_done now t r w)) = breakers w"
  by (simp add: select_done_def)

lemma withTimeout_not_Panic: "\<not> is_Panic (fst (withTimeout p oper ctx w))"
  by (auto simp add: withTimeout_def Let_def deliver_not_Panic split: prod.splits Context.splits)

lemma withTimeout_breakers:
  assumes "\<And>c w. breakers (snd (oper c w)) = breakers w"
  shows "breakers (snd (withTimeout p oper ctx w)) = breakers w"
proof -
  let ?c = "WithTimeout ctx (timeout p) (clock w)"
  obtain r w' where o: "oper ?c w = (r, w')" by (cases "oper ?c w")
  with assms[of ?c w] have b: "breakers w' = breakers w" by simp
  have "breakers (snd (select_done now t (clock w') w')) = breakers w" for now t
    using b by (simp add: select_done_breakers)
  then show ?thesis
    using o b
    by (auto simp add: withTimeout_def Let_def split: prod.splits Context.splits)
       (metis snd_conv)+
qed




text \<open>
  A context that was cancelled before the guard starts, around an operation that
  returns at once: both cases of the select are ready when the guard looks, and the
  caller gets the cancellation error from a runtime that picks the context's case and
  the operation's result from one that picks the other.
\<close>

lemma withTimeout_both_ready:
  "fst (withTimeout \<lparr>timeout = 100, retry = None, circuitBreaker = None\<rparr>
          (invoke (returns_after 0 (Str ''done''))) (DoneAt (- 1) Canceled)
          bare_world)
   = Return Nil (Some Canceled)
   \<and> fst (withTimeout \<lparr>timeout = 100, retry = None, circuitBreaker = None\<rparr>
          (invoke (returns_after 0 (Str ''done''))) (DoneAt (- 1) Canceled)
          (bare_world\<lparr>picks := \<lambda>n. False\<rparr>))
     = Return (Str ''done'') None"
  by (simp add: withTimeout_def select_done_def invoke_def returns_after_def bare_world_def)

section \<open>The retry loop and the breaker leave the store in place\<close>

lemma Execute_length:
  "(\<And>w. length (breakers (snd (req w))) = length (breakers w)) \<Longrightarrow>
   length (breakers (snd (Execute a req w))) = length (breakers w)"
  apply (simp add: Execute_def Let_def split: prod.splits option.splits)
  by (metis length_list_update snd_conv world.select_convs(2) world.surjective world.update_convs(2))

lemma Execute_not_Panic:
  "a < length (breakers w) \<Longrightarrow> (\<And>w. \<not> is_Panic (fst (req w))) \<Longrightarrow>
   \<not> is_Panic (fst (Execute a req w))"
  apply (simp add: Execute_def Let_def split: prod.splits option.splits)
  by (metis fst_conv)

text \<open>
  What holds of every result of the retry loop: an invariant of the world that every turn
  keeps, and a property of each way a turn can end the loop.
\<close>

lemma RetryLoop_rule:
  assumes run: "RetryLoop operation b0 w0 = Some y0" and init: "I w0"
    and step: "\<And>b w b' w'. I w \<Longrightarrow> attempt operation b w = Inr (b', w') \<Longrightarrow> I w'"
    and fin: "\<And>b w y. I w \<Longrightarrow> attempt operation b w = Inl y \<Longrightarrow> Q y"
  shows "Q y0"
proof -
  have "operation = operation \<longrightarrow> I w0 \<longrightarrow> Q y0"
  proof (rule RetryLoop.raw_induct
      [where P = "\<lambda>opn b w y. opn = operation \<longrightarrow> I w \<longrightarrow> Q y", OF _ run])
    fix loop :: "('a world \<Rightarrow> result \<times> 'a world) \<Rightarrow> BackOff \<Rightarrow> 'a world \<Rightarrow> (result \<times> 'a world) option"
    fix opn b w y
    assume IH: "\<And>opn b w y. loop opn b w = Some y \<Longrightarrow> opn = operation \<longrightarrow> I w \<longrightarrow> Q y"
      and body: "(case attempt opn b w of Inl r \<Rightarrow> Some r
                  | Inr bw \<Rightarrow> loop opn (fst bw) (snd bw)) = Some y"
    show "opn = operation \<longrightarrow> I w \<longrightarrow> Q y"
    proof (intro impI)
      assume opn: "opn = operation" and i: "I w"
      show "Q y"
      proof (cases "attempt operation b w")
        case (Inl r)
        with body opn have "r = y" by simp
        with fin[OF i Inl] show ?thesis by simp
      next
        case (Inr bw)
        with body opn have l: "loop operation (fst bw) (snd bw) = Some y" by simp
        have "I (snd bw)" using step[OF i, of b "fst bw" "snd bw"] Inr by simp
        with IH[OF l] show ?thesis by simp
      qed
    qed
  qed
  with init show ?thesis by simp
qed

lemma await_breakers: "await ctx next w = (x, w') \<Longrightarrow> breakers w' = breakers w"
  by (auto simp add: await_def select_done_def Let_def split: Context.splits if_splits)

lemma attempt_Inl_Panic:
  "attempt operation b w = Inl (r, w') \<Longrightarrow> is_Panic r \<Longrightarrow> is_Panic (fst (operation w))"
  by (auto simp add: attempt_def split: prod.splits result.splits option.splits if_splits sum.splits)

lemma attempt_Inr_breakers:
  "attempt operation b w = Inr (b', w') \<Longrightarrow> breakers w' = breakers (snd (operation w))"
  by (auto simp add: attempt_def dest: await_breakers
      split: prod.splits result.splits option.splits if_splits sum.splits)

lemma withCircuitBreaker_not_Panic:
  "circuitBreaker p = Some a \<Longrightarrow> a < length (breakers w) \<Longrightarrow>
   (\<And>c w. \<not> is_Panic (fst (oper c w))) \<Longrightarrow>
   \<not> is_Panic (fst (withCircuitBreaker p oper ctx w))"
  using Execute_not_Panic[of a w "oper ctx"]
  by (auto simp add: withCircuitBreaker_def split: prod.splits result.splits)

lemma withCircuitBreaker_length:
  "(\<And>c w. length (breakers (snd (oper c w))) = length (breakers w)) \<Longrightarrow>
   length (breakers (snd (withCircuitBreaker p oper ctx w))) = length (breakers w)"
proof -
  assume a: "\<And>c w. length (breakers (snd (oper c w))) = length (breakers w)"
  have "length (breakers (snd (Execute a (oper ctx) w))) = length (breakers w)" for a
    by (rule Execute_length) (rule a)
  then show ?thesis
    by (auto simp add: withCircuitBreaker_def split: prod.splits result.splits option.splits)
       (metis snd_conv)+
qed

lemma withRetry_not_Panic:
  assumes "withRetry p ctx oper w = Some (r, w')" and "retry p \<noteq> None"
    and "n = length (breakers w)"
    and np: "\<And>c w. length (breakers w) = n \<Longrightarrow> \<not> is_Panic (fst (oper c w))"
    and len: "\<And>c w. length (breakers (snd (oper c w))) = length (breakers w)"
  shows "\<not> is_Panic r"
proof -
  from assms(1,2) obtain b where
    l: "RetryLoop (\<lambda>w. oper ctx w) b w = Some (r, w')"
    by (auto simp add: withRetry_def OperationRetry_def RetryWithData_def)
  have "\<not> is_Panic (fst (r, w'))"
  proof (rule RetryLoop_rule[OF l, where I = "\<lambda>w. length (breakers w) = n"])
    show "length (breakers w) = n" using assms(3) by simp
  next
    fix b w b' w' assume "length (breakers w) = n" "attempt (\<lambda>w. oper ctx w) b w = Inr (b', w')"
    then show "length (breakers w') = n"
      using attempt_Inr_breakers[of "\<lambda>w. oper ctx w" b w b' w'] len[of ctx w] by simp
  next
    fix b w y assume i: "length (breakers w) = n" and a: "attempt (\<lambda>w. oper ctx w) b w = Inl y"
    show "\<not> is_Panic (fst y)"
      using attempt_Inl_Panic[of "\<lambda>w. oper ctx w" b w "fst y" "snd y"] a np[OF i, of ctx] by auto
  qed
  then show ?thesis by simp
qed

text \<open>
  A retry with \<open>maxRetries \<ge> 0\<close> ends: every turn of the loop ends it or uses up one
  of the retries. So does every executor whose policy has no retry or such a retry.
\<close>

lemma attempt_again:
  assumes "attempt operation (backOffContext (backOffTries (ConstantBackOff d) N j) ctx) w = Inr (b', w')"
  shows "b' = backOffContext (backOffTries (ConstantBackOff d) N (Suc j)) ctx \<and> j < N"
  using assms
  by (auto simp add: attempt_def split: prod.splits result.splits option.splits if_splits sum.splits)

lemma RetryLoop_returns:
  "\<exists>y. RetryLoop operation (backOffContext (backOffTries (ConstantBackOff d) N j) ctx) w = Some y"
proof (induction "N - j" arbitrary: j w)
  case 0
  show ?case
  proof (cases "attempt operation (backOffContext (backOffTries (ConstantBackOff d) N j) ctx) w")
    case (Inl y)
    then show ?thesis by (subst RetryLoop.simps) simp
  next
    case (Inr bw)
    with attempt_again[of operation d N j ctx w "fst bw" "snd bw"] 0 show ?thesis by simp
  qed
next
  case (Suc n)
  show ?case
  proof (cases "attempt operation (backOffContext (backOffTries (ConstantBackOff d) N j) ctx) w")
    case (Inl y)
    then show ?thesis by (subst RetryLoop.simps) simp
  next
    case (Inr bw)
    with attempt_again[of operation d N j ctx w "fst bw" "snd bw"]
    have b: "fst bw = backOffContext (backOffTries (ConstantBackOff d) N (Suc j)) ctx" and "j < N"
      by simp_all
    with Suc(2) have "n = N - Suc j" by simp
    from Suc(1)[OF this, of "snd bw"] obtain y where
      "RetryLoop operation (backOffContext (backOffTries (ConstantBackOff d) N (Suc j)) ctx) (snd bw) = Some y"
      by blast
    with Inr b show ?thesis by (subst RetryLoop.simps) simp
  qed
qed

lemma withRetry_returns:
  assumes "retry p = Some rt" and "0 \<le> maxRetries rt"
  shows "\<exists>y. withRetry p ctx oper w = Some y"
  using assms RetryLoop_returns[of "\<lambda>w. oper ctx w" "duration rt" "nat (maxRetries rt)" 0 ctx w]
  by (simp add: withRetry_def OperationRetry_def RetryWithData_def backoff_def)

lemma NewExecutor_returns:
  assumes "case policy of None \<Rightarrow> True
           | Some p \<Rightarrow> (case retry p of None \<Rightarrow> True | Some rt \<Rightarrow> 0 \<le> maxRetries rt)"
  shows "\<exists>y. NewExecutor ctx policy oper w = Some y"
proof (cases policy)
  case None
  then show ?thesis by (simp add: NewExecutor_def)
next
  case (Some p)
  show ?thesis
  proof (cases "retry p")
    case None
    with Some show ?thesis by (simp add: NewExecutor_def Let_def)
  next
    case rt: (Some rt)
    with Some assms have "0 \<le> maxRetries rt" by simp
    have "\<exists>y. withRetry p ctx g w = Some y" for g :: "'a Operation"
      by (rule withRetry_returns[OF rt \<open>0 \<le> maxRetries rt\<close>])
    with rt Some show ?thesis
      by (simp add: NewExecutor_def Let_def)
  qed
qed

section \<open>Panics inside the timeout guard\<close>

text \<open>
  Claim C9: a panic of the operation inside the timeout guard does not leave the
  guard. The guard always returns an ordinary result; when the operation panics before
  the guard's context is done, that result is the error
  \<^verbatim>\<open>operation panicked: ...\<close> (after that instant the caller already has the
  context's error); and no executor whose policy has a positive timeout, with or
  without a breaker and a retry, ends in a panic of the caller's closure: whenever it
  returns, it returns an ordinary result, and it does return when the policy has no
  retry or one with \<open>maxRetries \<ge> 0\<close>.
\<close>

theorem timeout_guard_contains_panic:
  "\<not> is_Panic (fst (withTimeout p oper ctx w))
   \<and> (\<forall>m w' t e.
         oper (WithTimeout ctx (timeout p) (clock w)) w = (Panic m, w')
         \<and> WithTimeout ctx (timeout p) (clock w) = DoneAt t e \<and> clock w' < t
         \<longrightarrow> withTimeout p oper ctx w
               = (Return Nil (Some (New (''operation panicked: '' @ m))), w'))
   \<and> (0 < timeout p
        \<and> (case circuitBreaker p of None \<Rightarrow> True | Some a \<Rightarrow> a < length (breakers w))
        \<longrightarrow> (\<forall>r w'. NewExecutor ctx (Some p) (invoke f) w = Some (r, w') \<longrightarrow> \<not> is_Panic r)
          \<and> ((case retry p of None \<Rightarrow> True | Some rt \<Rightarrow> 0 \<le> maxRetries rt)
               \<longrightarrow> (\<exists>r w'. NewExecutor ctx (Some p) (invoke f) w = Some (r, w')
                           \<and> \<not> is_Panic r)))"
proof (intro conjI allI impI)
  show "\<not> is_Panic (fst (withTimeout p oper ctx w))" by (rule withTimeout_not_Panic)
next
  fix m w' t e
  assume "oper (WithTimeout ctx (timeout p) (clock w)) w = (Panic m, w')
          \<and> WithTimeout ctx (timeout p) (clock w) = DoneAt t e \<and> clock w' < t"
  then show "withTimeout p oper ctx w
               = (Return Nil (Some (New (''operation panicked: '' @ m))), w')"
    by (elim conjE) (simp add: withTimeout_def select_done_def)
next
  assume a: "0 < timeout p
         \<and> (case circuitBreaker p of None \<Rightarrow> True | Some a \<Rightarrow> a < length (breakers w))"
  then have pos: "0 < timeout p"
    and ptr: "case circuitBreaker p of None \<Rightarrow> True | Some a \<Rightarrow> a < length (breakers w)"
    by blast+
  let ?t = "withTimeout p (invoke f)"
  have tlen: "length (breakers (snd (?t c v))) = length (breakers v)" for c v
    using withTimeout_breakers[of "invoke f" p c v] by (simp add: invoke_breakers)
  have safe: "\<not> is_Panic r" if ex: "NewExecutor ctx (Some p) (invoke f) w = Some (r, w')" for r w'
  proof (cases "circuitBreaker p")
    case None
    show ?thesis
    proof (cases "retry p")
      case rn: None
      with None pos ex have "r = fst (?t ctx w)" by (simp add: NewExecutor_def)
      then show ?thesis by (simp add: withTimeout_not_Panic)
    next
      case (Some rt)
      with None pos ex have "withRetry p ctx ?t w = Some (r, w')" by (simp add: NewExecutor_def)
      then show ?thesis
        by (rule withRetry_not_Panic[where n = "length (breakers w)"])
           (simp_all add: Some withTimeout_not_Panic tlen)
    qed
  next
    case (Some ad)
    let ?g = "withCircuitBreaker p ?t"
    from Some ptr have valid: "ad < length (breakers w)" by simp
    have glen: "length (breakers (snd (?g c v))) = length (breakers v)" for c v
      by (rule withCircuitBreaker_length) (rule tlen)
    have gnp: "length (breakers v) = length (breakers w) \<Longrightarrow> \<not> is_Panic (fst (?g c v))" for c v
      using withCircuitBreaker_not_Panic[of p ad v ?t c] Some valid
      by (simp add: withTimeout_not_Panic)
    show ?thesis
    proof (cases "retry p")
      case None
      with Some pos ex have "r = fst (?g ctx w)" by (simp add: NewExecutor_def)
      then show ?thesis using gnp[of w ctx] by simp
    next
      case rs: (Some rt)
      with Some pos ex have "withRetry p ctx ?g w = Some (r, w')" by (simp add: NewExecutor_def)
      then show ?thesis
        by (rule withRetry_not_Panic[where n = "length (breakers w)"])
           (simp_all add: rs gnp glen)
    qed
  qed
  show "\<And>r w'. NewExecutor ctx (Some p) (invoke f) w = Some (r, w') \<Longrightarrow> \<not> is_Panic r"
    by (rule safe)
  show "\<exists>r w'. NewExecutor ctx (Some p) (invoke f) w = Some (r, w') \<and> \<not> is_Panic r"
    if "case retry p of None \<Rightarrow> True | Some rt \<Rightarrow> 0 \<le> maxRetries rt"
  proof -
    from that obtain y where "NewExecutor ctx (Some p) (invoke f) w = Some y"
      using NewExecutor_returns[of "Some p" ctx "invoke f" w] by auto
    then have "NewExecutor ctx (Some p) (invoke f) w = Some (fst y, snd y)" by simp
    with safe show ?thesis by blast
  qed
qed

theorem timeout_guard_contains_panic_witness:
  "withTimeout \<lparr>timeout = 10, retry = None, circuitBreaker = None\<rparr>
     (invoke (panics_after 2 ''boom'')) Background
     bare_world
   = (Return Nil (Some (New ''operation panicked: boom'')),
      \<lparr>clock = 2, breakers = [], calls = 1, user = (), picks = \<lambda>n. True\<rparr>)"
  using timeout_guard_contains_panic
    [of "\<lparr>timeout = 10, retry = None, circuitBreaker = None\<rparr>"
        "invoke (panics_after 2 ''boom'')" Background
        bare_world,
     THEN conjunct2, THEN conjunct1, rule_format,
     of "''boom''" "\<lparr>clock = 2, breakers = [], calls = 1, user = (), picks = \<lambda>n. True\<rparr>"
        10 DeadlineExceeded]
  by (simp add: invoke_def panics_after_def bare_world_def)

section \<open>The breaker trips and rejects\<close>

lemma word32_le: "k < 2^32 \<Longrightarrow> F < 2^32 \<Longrightarrow> ((of_nat F :: 32 word) \<le> of_nat k) = (F \<le> k)"
  by (simp add: word_le_nat_alt unat_of_nat)

text \<open>
  One failing call through a closed breaker whose counting window is over neither when
  the call starts nor when it ends.
\<close>

lemma Execute_closed_failure:
  assumes valid: "a < length (breakers w)"
    and cb: "breakers w ! a = cb"
    and closed: "cb_state cb = StateClosed"
    and req: "req (w\<lparr>breakers := (breakers w)[a := cb\<lparr>cb_counts := onRequest (cb_counts cb)\<rparr>]\<rparr>) = (r, w2)"
    and keep: "breakers w2 = (breakers w)[a := cb\<lparr>cb_counts := onRequest (cb_counts cb)\<rparr>]"
    and fails: "fails r"
    and w1: "cb_expiry cb = None \<or> \<not> before (cb_expiry cb) (clock w)"
    and w2: "cb_expiry cb = None \<or> \<not> before (cb_expiry cb) (clock w2)"
  shows "Execute a req w =
           (r, w2\<lparr>breakers := (breakers w)[a :=
                 (if cb_failures cb \<le> ConsecutiveFailures (cb_counts cb) + 1
                  then cb\<lparr>cb_state := StateOpen, cb_generation := cb_generation cb + 1,
                          cb_counts := clear, cb_expiry := Some (clock w2 + cb_timeout cb)\<rparr>
                  else cb\<lparr>cb_counts := onFailure (onRequest (cb_counts cb))\<rparr>)]\<rparr>)"
proof -
  have s: "(case r of Return v e \<Rightarrow> e = None | Panic m \<Rightarrow> False) = False"
    using fails by (cases r rule: fails.cases) auto
  show ?thesis
  using valid cb closed req keep w1 w2
  apply (simp add: Execute_def beforeRequest_def currentState_def Let_def s)
  apply (auto simp add: afterRequest_def currentState_def cb_onFailure_def Let_def readyToTrip_def
      setState_def toNewGeneration_def onFailure_def onRequest_def)
  done
qed

lemma Execute_clock: "clock w \<le> clock (snd (Execute a (invoke f ctx) w))"
  by (auto simp add: Execute_def Let_def invoke_def split: prod.splits option.splits)

lemma calls_through_clock: "clock w \<le> clock (calls_through a f ctx gaps w)"
proof (induction gaps arbitrary: w)
  case Nil
  then show ?case by simp
next
  case (Cons g gs)
  have "clock w \<le> clock (w\<lparr>clock := clock w + int g\<rparr>)" by simp
  also have "\<dots> \<le> clock (snd (Execute a (invoke f ctx) (w\<lparr>clock := clock w + int g\<rparr>)))"
    by (rule Execute_clock)
  also have "\<dots> \<le> clock (calls_through a f ctx gs
      (snd (Execute a (invoke f ctx) (w\<lparr>clock := clock w + int g\<rparr>))))"
    by (rule Cons.IH)
  finally show ?case by simp
qed

lemma calls_through_append:
  "calls_through a f ctx (xs @ ys) w = calls_through a f ctx ys (calls_through a f ctx xs w)"
  by (induction xs arbitrary: w) simp_all

lemma failing_call:
  assumes inv: "counting a F ex T k w"
    and kF: "k < F" and F: "F < 2 ^ 32"
    and fl: "\<And>i c t u. fails (fst (f i c t u))"
    and win: "ex = None \<or> (\<exists>e. ex = Some e \<and> clock (snd (Execute a (invoke f ctx) w)) \<le> e)"
  shows "(Suc k < F \<longrightarrow> counting a F ex T (Suc k) (snd (Execute a (invoke f ctx) w)))
       \<and> (Suc k = F \<longrightarrow>
            a < length (breakers (snd (Execute a (invoke f ctx) w)))
            \<and> cb_state (breakers (snd (Execute a (invoke f ctx) w)) ! a) = StateOpen
            \<and> cb_expiry (breakers (snd (Execute a (invoke f ctx) w)) ! a)
                = Some (clock (snd (Execute a (invoke f ctx) w)) + T))
       \<and> calls (snd (Execute a (invoke f ctx) w)) = Suc (calls w)"
proof -
  let ?cb = "breakers w ! a"
  let ?w1 = "w\<lparr>breakers := (breakers w)[a := ?cb\<lparr>cb_counts := onRequest (cb_counts ?cb)\<rparr>]\<rparr>"
  obtain r w2 where req: "invoke f ctx ?w1 = (r, w2)" by (cases "invoke f ctx ?w1")
  from inv have valid: "a < length (breakers w)" and closed: "cb_state ?cb = StateClosed"
    and cf: "ConsecutiveFailures (cb_counts ?cb) = of_nat k"
    and th: "cb_failures ?cb = of_nat F" and ex: "cb_expiry ?cb = ex"
    and tm: "cb_timeout ?cb = T"
    by (simp_all add: counting_def)
  have keep: "breakers w2 = breakers ?w1" using invoke_breakers[of f ctx ?w1] req by simp
  have r: "fails r" using invoke_fst[of f ctx ?w1] req fl by simp
  have c2: "clock w \<le> clock w2" using invoke_clock[of ?w1 f ctx] req by simp
  have cl: "calls w2 = Suc (calls w)" using invoke_calls[of f ctx ?w1] req by simp
  have step: "Execute a (invoke f ctx) w =
           (r, w2\<lparr>breakers := (breakers w)[a :=
                 (if cb_failures ?cb \<le> ConsecutiveFailures (cb_counts ?cb) + 1
                  then ?cb\<lparr>cb_state := StateOpen, cb_generation := cb_generation ?cb + 1,
                          cb_counts := clear, cb_expiry := Some (clock w2 + cb_timeout ?cb)\<rparr>
                  else ?cb\<lparr>cb_counts := onFailure (onRequest (cb_counts ?cb))\<rparr>)]\<rparr>)"
    if "ex = None \<or> (\<exists>e. ex = Some e \<and> clock w2 \<le> e)"
  proof (rule Execute_closed_failure[of a w "breakers w ! a" "invoke f ctx" r w2])
    show "a < length (breakers w)" by (rule valid)
    show "breakers w ! a = breakers w ! a" by simp
    show "cb_state ?cb = StateClosed" by (rule closed)
    show "invoke f ctx ?w1 = (r, w2)" by (rule req)
    show "fails r" by (rule r)
    show "breakers w2 = (breakers w)[a := ?cb\<lparr>cb_counts := onRequest (cb_counts ?cb)\<rparr>]"
      using keep by simp
    show "cb_expiry ?cb = None \<or> \<not> before (cb_expiry ?cb) (clock w)"
      using that c2 ex by (auto simp add: before_def)
    show "cb_expiry ?cb = None \<or> \<not> before (cb_expiry ?cb) (clock w2)"
      using that ex by (auto simp add: before_def)
  qed
  have win1: "ex = None \<or> \<not> before ex (clock w)"
    using win Execute_clock[of w a f ctx] by (auto simp add: before_def)
  have c3: "clock (snd (Execute a (invoke f ctx) w)) = clock w2"
    using valid closed req keep ex win1
    by (auto simp add: Execute_def beforeRequest_def currentState_def Let_def)
  from win c3 have win2: "ex = None \<or> (\<exists>e. ex = Some e \<and> clock w2 \<le> e)" by simp
  note st = step[OF win2]
  have le: "((of_nat F :: 32 word) \<le> of_nat k + 1) = (F \<le> Suc k)"
    using word32_le[of "Suc k" F] kF F by (simp add: add.commute)
  show ?thesis
    using valid cf th ex tm closed kF le cl
    by (auto simp add: st counting_def onFailure_def onRequest_def)
qed

lemma failing_calls:
  assumes "counting a F ex T k w"
    and "k + length gaps < F" and "F < 2 ^ 32"
    and fl: "\<And>i c t u. fails (fst (f i c t u))"
    and "ex = None \<or> (\<exists>e. ex = Some e \<and> clock (calls_through a f ctx gaps w) \<le> e)"
  shows "counting a F ex T (k + length gaps) (calls_through a f ctx gaps w)
       \<and> calls (calls_through a f ctx gaps w) = calls w + length gaps"
  using assms(1,2,5)
proof (induction gaps arbitrary: k w)
  case Nil
  then show ?case by simp
next
  case (Cons g gs)
  let ?w0 = "w\<lparr>clock := clock w + int g\<rparr>"
  let ?w1 = "snd (Execute a (invoke f ctx) ?w0)"
  have inv0: "counting a F ex T k ?w0" using Cons.prems(1) by (simp add: counting_def)
  have win: "ex = None \<or> (\<exists>e. ex = Some e \<and> clock ?w1 \<le> e)"
    using Cons.prems(3) calls_through_clock[of ?w1 a f ctx gs] by auto
  have kF: "k < F" and sk: "Suc k < F" using Cons.prems(2) by simp_all
  from failing_call[OF inv0 kF assms(3) fl win] sk
  have inv1: "counting a F ex T (Suc k) ?w1" and c1: "calls ?w1 = Suc (calls w)" by simp_all
  have "counting a F ex T (Suc k + length gs) (calls_through a f ctx gs ?w1)
        \<and> calls (calls_through a f ctx gs ?w1) = calls ?w1 + length gs"
    by (rule Cons.IH[OF inv1]) (use Cons.prems in simp_all)
  with c1 show ?case by simp
qed

text \<open>
  Claim C3, as the code has it. Take a closed breaker with threshold \<open>F\<close>,
  \<open>1 \<le> F < 2^32\<close>, that has counted no failure yet, and \<open>F\<close> calls in a row that all
  fail and that all end within the breaker's current counting window (always so when
  the breaker has no counting interval). Then the breaker is still closed before the
  last of them and open after it, the operation has run \<open>F\<close> times, and from then
  until the cool-down is over every call through the breaker returns the open-state
  error and leaves the world as it is: the operation is not entered.
\<close>

theorem breaker_trips_after_F_failures:
  assumes valid: "a < length (breakers w)"
    and closed: "cb_state (breakers w ! a) = StateClosed"
    and zero: "ConsecutiveFailures (cb_counts (breakers w ! a)) = 0"
    and thr: "cb_failures (breakers w ! a) = of_nat F" and F: "0 < F" "F < 2 ^ 32"
    and len: "length gaps = F"
    and fl: "\<forall>i c t u. fails (fst (f i c t u))"
    and win: "cb_expiry (breakers w ! a) = None
              \<or> (\<exists>e. cb_expiry (breakers w ! a) = Some e \<and> clock (calls_through a f ctx gaps w) \<le> e)"
  shows "(\<forall>k<F. cb_state (breakers (calls_through a f ctx (take k gaps) w) ! a) = StateClosed)
       \<and> cb_state (breakers (calls_through a f ctx gaps w) ! a) = StateOpen
       \<and> calls (calls_through a f ctx gaps w) = calls w + F
       \<and> (\<forall>w' g c. breakers w' = breakers (calls_through a f ctx gaps w)
                   \<and> clock w' \<le> clock (calls_through a f ctx gaps w) + cb_timeout (breakers w ! a)
            \<longrightarrow> Execute a (invoke g c) w' = (Return Nil (Some ErrOpenState), w'))"
proof -
  let ?ex = "cb_expiry (breakers w ! a)" and ?T = "cb_timeout (breakers w ! a)"
  let ?run = "\<lambda>gs. calls_through a f ctx gs w"
  have fl': "\<And>i c t u. fails (fst (f i c t u))" using fl by simp
  have inv: "counting a F ?ex ?T 0 w"
    using valid closed zero thr by (simp add: counting_def)
  have split: "?run gaps = calls_through a f ctx (drop k gaps) (?run (take k gaps))" for k
    using calls_through_append[of a f ctx "take k gaps" "drop k gaps" w] by simp
  have winp: "?ex = None \<or> (\<exists>e. ?ex = Some e \<and> clock (?run (take k gaps)) \<le> e)" for k
    using win calls_through_clock[of "?run (take k gaps)" a f ctx "drop k gaps"] split[of k]
    by auto
  have pre: "counting a F ?ex ?T k (?run (take k gaps)) \<and> calls (?run (take k gaps)) = calls w + k"
    if "k < F" for k
    using failing_calls[OF inv _ F(2) fl' winp[of k]] that len by simp
  have closedk: "\<forall>k<F. cb_state (breakers (?run (take k gaps)) ! a) = StateClosed"
    using pre by (simp add: counting_def)
  obtain m where m: "F = Suc m" using F(1) by (cases F) auto
  let ?wm = "?run (take m gaps)"
  have last: "?run gaps = snd (Execute a (invoke f ctx) (?wm\<lparr>clock := clock ?wm + int (gaps ! m)\<rparr>))"
  proof -
    have "drop m gaps = [gaps ! m]"
      using len m by (metis Cons_nth_drop_Suc drop_all lessI order_refl)
    with split[of m] show ?thesis by simp
  qed
  let ?w0 = "?wm\<lparr>clock := clock ?wm + int (gaps ! m)\<rparr>"
  have invm: "counting a F ?ex ?T m ?w0" and cm: "calls ?w0 = calls w + m"
    using pre[of m] m by (simp_all add: counting_def)
  have winl: "?ex = None \<or> (\<exists>e. ?ex = Some e \<and> clock (snd (Execute a (invoke f ctx) ?w0)) \<le> e)"
    using win last by simp
  from failing_call[OF invm _ F(2) fl' winl] m last cm
  have va: "a < length (breakers (?run gaps))"
    and op: "cb_state (breakers (?run gaps) ! a) = StateOpen"
    and ex: "cb_expiry (breakers (?run gaps) ! a) = Some (clock (?run gaps) + ?T)"
    and cl: "calls (?run gaps) = calls w + F"
    by simp_all
  have rej: "Execute a (invoke g c) w' = (Return Nil (Some ErrOpenState), w')"
    if "breakers w' = breakers (?run gaps) \<and> clock w' \<le> clock (?run gaps) + ?T" for w' g c
    using that va op ex
    by (auto simp add: Execute_def beforeRequest_def currentState_def Let_def before_def)
  from closedk op cl rej show ?thesis by blast
qed

text \<open>
  \<^verbatim>\<open>TestCircuitBreakerTripping\<close>: threshold 2, two failing calls, and the breaker is
  open.
\<close>

theorem breaker_trips_after_F_failures_witness:
  "cb_state (breakers (calls_through 0 always_fails Background [0, 0] test_world) ! 0) = StateOpen
   \<and> calls (calls_through 0 always_fails Background [0, 0] test_world) = calls test_world + 2"
  using breaker_trips_after_F_failures
    [of 0 test_world 2 "[0, 0]" always_fails Background, THEN conjunct2]
  by (simp add: ev)

text \<open>
  Claim C3 as it is written fails when the counting interval rolls over between the
  failures. The breaker of \<^verbatim>\<open>TestCircuitBreakerRecovery\<close> (threshold 2, counting
  interval 100) sees one failure at instant 0 and the next at instant 150: two
  consecutive failures are recorded, the counter was cleared in between, and the
  breaker is still closed.
\<close>

theorem breaker_closed_after_rollover:
  "cb_state (breakers (calls_through 0 always_fails Background [0, 150]
      \<lparr>clock = 0,
       breakers = [NewCircuitBreaker
          \<lparr>st_Name = ''test_cb'', st_MaxRequests = 2, st_Interval = 100,
           st_Timeout = 500, st_failures = 2\<rparr> 0],
       calls = 0, user = (), picks = \<lambda>n. True\<rparr>) ! 0) = StateClosed
   \<and> calls (calls_through 0 always_fails Background [0, 150]
      \<lparr>clock = 0,
       breakers = [NewCircuitBreaker
          \<lparr>st_Name = ''test_cb'', st_MaxRequests = 2, st_Interval = 100,
           st_Timeout = 500, st_failures = 2\<rparr> 0],
       calls = 0, user = (), picks = \<lambda>n. True\<rparr>) = 2"
  by (simp add: ev)

section \<open>How often the retry loop calls\<close>

lemma backoff_capped:
  "0 \<le> maxRetries rt \<Longrightarrow>
   Reset (backoff rt ctx) = capped (duration rt) (nat (maxRetries rt)) 0 ctx"
  by (simp add: backoff_def capped_def)

text \<open>
  A context that is not done at an instant is not done before it.
\<close>

lemma ctx_Err_earlier: "ctx_Err ctx t = None \<Longrightarrow> t' \<le> t \<Longrightarrow> ctx_Err ctx t' = None"
  by (cases ctx) (auto split: if_splits)

lemma after_attempts_clock: "clock w \<le> clock (after_attempts f ctx d n w)"
proof (induction n arbitrary: w)
  case 0
  then show ?case by simp
next
  case (Suc n)
  let ?w1 = "snd (invoke f ctx w)"
  let ?w2 = "?w1\<lparr>clock := clock ?w1 + max d 0\<rparr>"
  have "clock w \<le> clock ?w1" by (rule invoke_clock)
  also have "\<dots> \<le> clock ?w2" by simp
  also have "\<dots> \<le> clock (after_attempts f ctx d n ?w2)" by (rule Suc.IH)
  finally show ?case by simp
qed

text \<open>
  A turn of the loop whose attempt fails with an error that is not permanent, with a
  retry left and the context not done when the wait is over: the loop waits and goes
  round again.
\<close>

lemma attempt_retry:
  assumes op: "operation w = (Return v (Some e), w1)" and np: "as_Permanent e = None"
    and j: "j < N" and d: "d \<noteq> Stop"
    and live: "ctx_Err ctx (clock w1 + max d 0) = None"
  shows "attempt operation (capped d N j ctx) w
           = Inr (capped d N (Suc j) ctx, w1\<lparr>clock := clock w1 + max d 0\<rparr>)"
proof -
  have now: "ctx_Err ctx (clock w1) = None"
    by (rule ctx_Err_earlier[OF live]) simp
  have aw: "await ctx d w1 = (None, w1\<lparr>clock := clock w1 + max d 0\<rparr>)"
    using live by (cases ctx) (auto simp add: await_def select_done_def Let_def split: if_splits)
  show ?thesis
    using op np j d now aw by (simp add: attempt_def capped_def)
qed

text \<open>
  A turn whose attempt fails with an error that is not permanent, with no retry left
  and the context not done when the attempt is over: the loop returns that error.
\<close>

lemma attempt_exhausted:
  assumes "operation w = (Return v (Some e), w1)" and "as_Permanent e = None"
    and "N \<le> j" and "ctx_Err ctx (clock w1) = None"
  shows "attempt operation (capped d N j ctx) w = Inl (Return v (Some e), w1)"
  using assms by (simp add: attempt_def capped_def)

lemma attempt_success:
  assumes "operation w = (Return v None, w1)"
  shows "attempt operation b w = Inl (Return v None, w1)"
  using assms by (simp add: attempt_def)

text \<open>
  \<open>n\<close> failing attempts in a row, none permanent, with retries left for all of them
  and the context not done when the last of their waits is over: the loop is at its
  next turn, after \<open>n\<close> calls and \<open>n\<close> waits.
\<close>

lemma loop_failures:
  assumes "\<forall>i<n. \<forall>c t u. fails_retryably (fst (f (calls w + i) c t u))"
    and "j + n \<le> N" and "d \<noteq> Stop"
    and "ctx_Err ctx (clock (after_attempts f ctx d n w)) = None"
  shows "RetryLoop (invoke f ctx) (capped d N j ctx) w
           = RetryLoop (invoke f ctx) (capped d N (j + n) ctx) (after_attempts f ctx d n w)
       \<and> calls (after_attempts f ctx d n w) = calls w + n"
  using assms(1,2,4)
proof (induction n arbitrary: j w)
  case 0
  then show ?case by simp
next
  case (Suc n)
  let ?w1 = "snd (invoke f ctx w)"
  let ?w2 = "?w1\<lparr>clock := clock ?w1 + max d 0\<rparr>"
  have c1: "calls ?w1 = Suc (calls w)" by (rule invoke_calls)
  have "fails_retryably (fst (f (calls w) ctx (clock w) (user w)))"
    using Suc.prems(1) by (metis add.right_neutral zero_less_Suc)
  then have "fails_retryably (fst (invoke f ctx w))" by (simp add: invoke_fst)
  then obtain v e where r: "fst (invoke f ctx w) = Return v (Some e)"
    and np: "as_Permanent e = None"
    by (cases "fst (invoke f ctx w)" rule: fails_retryably.cases) auto
  from r have op: "invoke f ctx w = (Return v (Some e), ?w1)" by (cases "invoke f ctx w") simp
  have jN: "j < N" using Suc.prems(2) by simp
  have live: "ctx_Err ctx (clock (after_attempts f ctx d n ?w2)) = None"
    using Suc.prems(3) by simp
  have live2: "ctx_Err ctx (clock ?w1 + max d 0) = None"
    using ctx_Err_earlier[OF live, of "clock ?w2"] after_attempts_clock[of ?w2 f ctx d n] by simp
  have at: "attempt (invoke f ctx) (capped d N j ctx) w = Inr (capped d N (Suc j) ctx, ?w2)"
    using attempt_retry[of "invoke f ctx" w v e ?w1 j N d ctx] op np jN assms(3) live2 by simp
  have unfold: "RetryLoop (invoke f ctx) (capped d N j ctx) w
                  = RetryLoop (invoke f ctx) (capped d N (Suc j) ctx) ?w2"
    by (subst RetryLoop.simps) (simp add: at)
  have c2: "calls ?w2 = Suc (calls w)" using c1 by simp
  have fl2: "\<forall>i<n. \<forall>c t u. fails_retryably (fst (f (calls ?w2 + i) c t u))"
  proof (intro allI impI)
    fix i c t u assume "i < n"
    then have "Suc i < Suc n" by simp
    with Suc.prems(1) have "fails_retryably (fst (f (calls w + Suc i) c t u))"
      by blast
    then show "fails_retryably (fst (f (calls ?w2 + i) c t u))" by (simp add: c2)
  qed
  have "Suc j + n \<le> N" using Suc.prems(2) by simp
  from Suc.IH[OF fl2 this live]
  have "RetryLoop (invoke f ctx) (capped d N (Suc j) ctx) ?w2
          = RetryLoop (invoke f ctx) (capped d N (Suc j + n) ctx) (after_attempts f ctx d n ?w2)"
    and "calls (after_attempts f ctx d n ?w2) = calls ?w2 + n"
    by simp_all
  with unfold c2 show ?case by simp
qed

text \<open>
  Claim C2, as the code has it. Take a retry with \<open>N = maxRetries \<ge> 0\<close> whose delay
  \<open>d\<close> is not the stop sentinel of the delay sequence (one negative nanosecond), around
  the caller's closure, and let the first \<open>k\<close> attempts fail with errors that are not
  marked permanent. The context is any context that is not done while the loop runs:
  the loop runs, for as long as nothing ends it, as \<open>after_attempts\<close> says. If \<open>k \<le> N\<close>,
  attempt \<open>k + 1\<close> succeeds and the context is not done when the wait before it is
  over, the loop returns that success and the closure has been entered \<open>k + 1\<close> times.
  If \<open>k = N\<close>, attempt \<open>N + 1\<close> fails too, again not permanently, and the context is
  not done when that attempt is over, the loop returns that last error as it is and
  the closure has been entered \<open>N + 1\<close> times. In both cases the loop ends where the
  last attempt ends: it has waited \<open>k\<close> times and not after the last attempt.
\<close>

theorem retry_loop_attempts:
  assumes rt: "retry p = Some rt" and N: "0 \<le> maxRetries rt" and d: "duration rt \<noteq> Stop"
    and fl: "\<forall>i<k. \<forall>c t u. fails_retryably (fst (f (calls w + i) c t u))"
  shows "(k \<le> nat (maxRetries rt) \<and> (\<forall>c t u. fst (f (calls w + k) c t u) = Return v None)
            \<and> ctx_Err ctx (clock (after_attempts f ctx (duration rt) k w)) = None \<longrightarrow>
            withRetry p ctx (invoke f) w
              = Some (Return v None, snd (invoke f ctx (after_attempts f ctx (duration rt) k w)))
            \<and> calls (snd (invoke f ctx (after_attempts f ctx (duration rt) k w)))
                = calls w + (k + 1))
       \<and> (k = nat (maxRetries rt) \<and> (\<forall>c t u. fst (f (calls w + k) c t u) = Return v (Some e))
            \<and> as_Permanent e = None
            \<and> ctx_Err ctx (clock (snd (invoke f ctx (after_attempts f ctx (duration rt) k w))))
                = None \<longrightarrow>
            withRetry p ctx (invoke f) w
              = Some (Return v (Some e), snd (invoke f ctx (after_attempts f ctx (duration rt) k w)))
            \<and> calls (snd (invoke f ctx (after_attempts f ctx (duration rt) k w)))
                = calls w + (nat (maxRetries rt) + 1))"
proof -
  let ?N = "nat (maxRetries rt)" and ?d = "duration rt"
  let ?loop = "\<lambda>j. RetryLoop (invoke f ctx) (capped ?d ?N j ctx)"
  let ?wk = "after_attempts f ctx ?d k w"
  let ?w1 = "snd (invoke f ctx ?wk)"
  have wr: "withRetry p ctx (invoke f) w = ?loop 0 w"
    using rt backoff_capped[OF N] by (simp add: withRetry_def OperationRetry_def RetryWithData_def)
  have run: "?loop 0 w = ?loop k ?wk \<and> calls ?wk = calls w + k"
    if "k \<le> ?N" and "ctx_Err ctx (clock ?wk) = None"
    using loop_failures[OF fl _ d, of 0 ?N ctx] that by simp
  have c1: "calls ?w1 = Suc (calls ?wk)" by (rule invoke_calls)
  have res: "fst (invoke f ctx ?wk) = fst (f (calls ?wk) ctx (clock ?wk) (user ?wk))"
    by (rule invoke_fst)
  have a: "withRetry p ctx (invoke f) w = Some (Return v None, ?w1)
           \<and> calls ?w1 = calls w + (k + 1)"
    if kN: "k \<le> ?N" and ok: "\<forall>c t u. fst (f (calls w + k) c t u) = Return v None"
      and live: "ctx_Err ctx (clock ?wk) = None"
  proof -
    from run[OF kN live] have eq: "?loop 0 w = ?loop k ?wk" and ck: "calls ?wk = calls w + k"
      by simp_all
    have inv: "invoke f ctx ?wk = (Return v None, ?w1)"
      using res ok ck by (cases "invoke f ctx ?wk") simp
    have at: "attempt (invoke f ctx) (capped ?d ?N k ctx) ?wk = Inl (Return v None, ?w1)"
      using attempt_success[of "invoke f ctx" ?wk v ?w1 "capped ?d ?N k ctx"] inv by simp
    have "?loop k ?wk = Some (Return v None, ?w1)"
      by (subst RetryLoop.simps) (simp add: at)
    with wr eq ck c1 show ?thesis by simp
  qed
  have b: "withRetry p ctx (invoke f) w = Some (Return v (Some e), ?w1)
           \<and> calls ?w1 = calls w + (?N + 1)"
    if kN: "k = ?N" and bad: "\<forall>c t u. fst (f (calls w + k) c t u) = Return v (Some e)"
      and np: "as_Permanent e = None" and live1: "ctx_Err ctx (clock ?w1) = None"
  proof -
    have "clock ?wk \<le> clock ?w1" by (rule invoke_clock)
    with live1 have live: "ctx_Err ctx (clock ?wk) = None" by (rule ctx_Err_earlier)
    have "k \<le> ?N" using kN by simp
    from run[OF this live] have eq: "?loop 0 w = ?loop k ?wk" and ck: "calls ?wk = calls w + k"
      by simp_all
    have inv: "invoke f ctx ?wk = (Return v (Some e), ?w1)"
      using res bad ck by (cases "invoke f ctx ?wk") simp
    have at: "attempt (invoke f ctx) (capped ?d ?N k ctx) ?wk = Inl (Return v (Some e), ?w1)"
      using attempt_exhausted[of "invoke f ctx" ?wk v e ?w1 ?N k ctx ?d] inv np kN live1 by simp
    have "?loop k ?wk = Some (Return v (Some e), ?w1)"
      by (subst RetryLoop.simps) (simp add: at)
    with wr eq ck c1 kN show ?thesis by simp
  qed
  from a b show ?thesis by blast
qed

text \<open>
  \<^verbatim>\<open>TestRetryWithSuccessAfterFailures\<close> on a context with a deadline of one second:
  five retries 100ms apart, success on the third attempt, at 200ms, after three
  calls.
\<close>

theorem retry_loop_attempts_witness:
  "withRetry \<lparr>timeout = 0, retry = Some \<lparr>duration = 100 * Millisecond, maxRetries = 5\<rparr>,
              circuitBreaker = None\<rparr>
     (DoneAt (1 * Second) DeadlineExceeded) (invoke succeeds_third) test_world
   = Some (Return (Str ''success'') None, test_world\<lparr>clock := 200 * Millisecond, calls := 3\<rparr>)"
  using retry_loop_attempts
    [of "\<lparr>timeout = 0, retry = Some \<lparr>duration = 100 * Millisecond, maxRetries = 5\<rparr>,
          circuitBreaker = None\<rparr>"
        "\<lparr>duration = 100 * Millisecond, maxRetries = 5\<rparr>" 2 succeeds_third test_world
        "Str ''success''" "DoneAt (1 * Second) DeadlineExceeded", THEN conjunct1]
  by (simp add: ev numeral_2_eq_2)

text \<open>
  Claim C2 as it is written fails when an attempt ends with a permanent error, as a
  breaker rejection is for the loop: with five retries, a delay of one second and the
  breaker of \<^verbatim>\<open>TestCircuitBreakerTripping\<close> in the same policy, an operation that
  always fails is entered twice, not six times, and the caller gets the open-state
  error, not the operation's.
\<close>

theorem retry_stops_at_rejection:
  "NewExecutor Background
     (Some \<lparr>timeout = 0, retry = Some \<lparr>duration = 1 * Second, maxRetries = 5\<rparr>,
            circuitBreaker = Some 0\<rparr>)
     (invoke always_fails) test_world
   = Some (Return Nil (Some ErrOpenState),
      \<lparr>clock = 2000000000,
       breakers = [test_cb\<lparr>cb_state := StateOpen, cb_generation := 2,
                          cb_expiry := Some 3000000000\<rparr>],
       calls = 2, user = (), picks = \<lambda>n. True\<rparr>)"
  by (simp add: ev RetryLoop.simps)

section \<open>A rejection ends the retry loop\<close>

lemma Execute_rejects:
  assumes "a < length (breakers w)"
    and "(cb_state (breakers w ! a) = StateOpen \<and> \<not> before (cb_expiry (breakers w ! a)) (clock w)
            \<and> rej = ErrOpenState)
         \<or> (cb_state (breakers w ! a) = StateHalfOpen
            \<and> Requests (cb_counts (breakers w ! a)) \<ge> cb_maxRequests (breakers w ! a)
            \<and> rej = ErrTooManyRequests)"
  shows "Execute a req w = (Return Nil (Some rej), w)"
  using assms
  by (auto simp add: Execute_def beforeRequest_def currentState_def Let_def)

text \<open>
  Claim C4: in a policy with a retry and a breaker, when the breaker rejects a call
  (it is open and its cool-down is not over, or it is half-open with its probes used
  up), the executor returns the rejection error itself and leaves the world as it is:
  the operation is not entered, no delay is waited for. The same holds of the loop in
  any later turn, whatever is left of its delay sequence.
\<close>

theorem rejection_stops_retry:
  assumes "retry p = Some rt" and "circuitBreaker p = Some a" and "a < length (breakers w)"
    and "(cb_state (breakers w ! a) = StateOpen \<and> \<not> before (cb_expiry (breakers w ! a)) (clock w)
            \<and> rej = ErrOpenState)
         \<or> (cb_state (breakers w ! a) = StateHalfOpen
            \<and> Requests (cb_counts (breakers w ! a)) \<ge> cb_maxRequests (breakers w ! a)
            \<and> rej = ErrTooManyRequests)"
  shows "NewExecutor ctx (Some p) oper w = Some (Return Nil (Some rej), w)
       \<and> RetryLoop (\<lambda>w. withCircuitBreaker p oper ctx w) b w = Some (Return Nil (Some rej), w)"
proof -
  have ex: "Execute a req w = (Return Nil (Some rej), w)" for req :: "'a world \<Rightarrow> result \<times> 'a world"
    by (rule Execute_rejects) (use assms in auto)
  have perm: "IsErrorPermanent (Some rej)"
    using assms(4) by (auto simp add: IsErrorPermanent_def)
  have asp: "as_Permanent (PermanentError rej) = Some rej" by simp
  have g: "withCircuitBreaker p op' ctx w = (Return Nil (Some (PermanentError rej)), w)"
    for op' :: "'a Operation"
    by (simp add: withCircuitBreaker_def assms(1,2) ex perm Permanent_def)
  have at: "attempt (\<lambda>w. withCircuitBreaker p op' ctx w) b' w = Inl (Return Nil (Some rej), w)"
    for op' :: "'a Operation" and b'
    by (simp add: attempt_def g)
  have loop: "RetryLoop (\<lambda>w. withCircuitBreaker p op' ctx w) b' w = Some (Return Nil (Some rej), w)"
    for op' :: "'a Operation" and b'
    by (subst RetryLoop.simps) (simp add: at)
  show ?thesis
    by (simp add: NewExecutor_def withRetry_def OperationRetry_def RetryWithData_def
        assms(1,2) loop)
qed

text \<open>
  After the two failures of \<^verbatim>\<open>TestCircuitBreakerTripping\<close> the breaker is open; an
  executor with three retries then returns the open-state error at once.
\<close>

theorem rejection_stops_retry_witness:
  "NewExecutor Background
     (Some \<lparr>timeout = 0, retry = Some \<lparr>duration = 1 * Second, maxRetries = 3\<rparr>,
            circuitBreaker = Some 0\<rparr>)
     (invoke always_fails) tripped_world
   = Some (Return Nil (Some ErrOpenState), tripped_world)"
  using rejection_stops_retry
    [of "\<lparr>timeout = 0, retry = Some \<lparr>duration = 1 * Second, maxRetries = 3\<rparr>,
          circuitBreaker = Some 0\<rparr>"
        "\<lparr>duration = 1 * Second, maxRetries = 3\<rparr>" 0 tripped_world ErrOpenState
        Background "invoke always_fails", THEN conjunct1]
  by (simp add: ev)

section \<open>Building the provider\<close>








section \<open>Looking a policy up\<close>

lemma Policy_absent:
  "targets p tgt = None \<Longrightarrow>
   Provider_Policy p tgt = \<lparr>timeout = 0, retry = None, circuitBreaker = None\<rparr>"
  by (simp add: Provider_Policy_def)

lemma Policy_timeout_omitted:
  "targets p tgt = Some cfg \<Longrightarrow> t_timeout cfg = [] \<or> timeouts p (t_timeout cfg) = None \<Longrightarrow>
   timeout (Provider_Policy p tgt) = 0"
  by (auto simp add: Provider_Policy_def Let_def split: option.splits)

lemma Policy_retry_omitted:
  "targets p tgt = Some cfg \<Longrightarrow> t_retry cfg = [] \<or> retries p (t_retry cfg) = None \<Longrightarrow>
   retry (Provider_Policy p tgt) = None"
  by (auto simp add: Provider_Policy_def Let_def split: option.splits)

lemma Policy_circuitBreaker_omitted:
  "targets p tgt = Some cfg \<Longrightarrow>
   t_circuitBreaker cfg = [] \<or> circuitBreakers p (t_circuitBreaker cfg) = None \<Longrightarrow>
   circuitBreaker (Provider_Policy p tgt) = None"
  by (auto simp add: Provider_Policy_def Let_def split: option.splits)

lemma NewExecutor_bare:
  "timeout q \<le> 0 \<Longrightarrow> retry q = None \<Longrightarrow> circuitBreaker q = None \<Longrightarrow>
   NewExecutor ctx (Some q) oper w = Some (oper ctx w)"
  by (simp add: NewExecutor_def)

text \<open>
  Claim C10, as the code has it. \<^verbatim>\<open>Provider.Policy\<close> always returns a policy. For a
  target the provider does not know it is the empty policy. For a known target, a
  guard whose name is empty or has no definition is left out of the policy. And when
  no guard is left, an executor built from the policy enters the caller's closure
  once and returns what it returns.
\<close>

theorem Provider_Policy_omits:
  "(targets p tgt = None \<longrightarrow>
      Provider_Policy p tgt = \<lparr>timeout = 0, retry = None, circuitBreaker = None\<rparr>)
   \<and> (\<forall>cfg. targets p tgt = Some cfg \<longrightarrow>
        (t_timeout cfg = [] \<or> timeouts p (t_timeout cfg) = None
           \<longrightarrow> timeout (Provider_Policy p tgt) = 0)
      \<and> (t_retry cfg = [] \<or> retries p (t_retry cfg) = None
           \<longrightarrow> retry (Provider_Policy p tgt) = None)
      \<and> (t_circuitBreaker cfg = [] \<or> circuitBreakers p (t_circuitBreaker cfg) = None
           \<longrightarrow> circuitBreaker (Provider_Policy p tgt) = None))
   \<and> (timeout (Provider_Policy p tgt) \<le> 0 \<and> retry (Provider_Policy p tgt) = None
        \<and> circuitBreaker (Provider_Policy p tgt) = None \<longrightarrow>
        NewExecutor ctx (Some (Provider_Policy p tgt)) (invoke f) w = Some (invoke f ctx w)
        \<and> calls (snd (invoke f ctx w)) = Suc (calls w))"
  using Policy_absent[of p tgt] Policy_timeout_omitted[of p tgt] Policy_retry_omitted[of p tgt]
    Policy_circuitBreaker_omitted[of p tgt]
    NewExecutor_bare[of "Provider_Policy p tgt" ctx "invoke f" w] invoke_calls[of f ctx w]
  by blast

text \<open>
  \<^verbatim>\<open>TestRetryWithNoTargetConfig\<close>: a retry is defined, the target is not, and the
  operation runs once.
\<close>

theorem Provider_Policy_omits_witness:
  "(case fst (FromConfig no_expression no_target_config bare_world) of
      Inl err \<Rightarrow> None
    | Inr provider \<Rightarrow>
        NewExecutor Background (Some (Provider_Policy provider ''non_existent_target''))
          (invoke always_fails) bare_world)
   = Some (Return Nil (Some (New ''test error'')), bare_world\<lparr>calls := 1\<rparr>)"
proof -
  let ?p = "\<lparr>timeouts = Map.empty,
         retries = [''example_retry'' \<mapsto> \<lparr>duration = 100000000, maxRetries = 3\<rparr>],
         circuitBreakers = Map.empty, targets = Map.empty\<rparr>"
  have provider: "fst (FromConfig no_expression no_target_config bare_world) = Inr ?p"
    by (simp add: no_target_config_def FromConfig_def configure_def newRetry_def
        parseDuration_def ParseInt_def isDigit_def wrap64_def Microsecond_def)
  note omits = Provider_Policy_omits
    [of ?p "''non_existent_target''" Background always_fails bare_world]
  have absent: "targets ?p ''non_existent_target'' = None" by simp
  from omits absent
  have empty: "Provider_Policy ?p ''non_existent_target''
                 = \<lparr>timeout = 0, retry = None, circuitBreaker = None\<rparr>"
    by blast
  have "timeout (Provider_Policy ?p ''non_existent_target'') \<le> 0
        \<and> retry (Provider_Policy ?p ''non_existent_target'') = None
        \<and> circuitBreaker (Provider_Policy ?p ''non_existent_target'') = None"
    by (simp add: empty)
  with omits have "NewExecutor Background (Some (Provider_Policy ?p ''non_existent_target''))
          (invoke always_fails) bare_world = Some (invoke always_fails Background bare_world)"
    by blast
  moreover have "invoke always_fails Background bare_world
                   = (Return Nil (Some (New ''test error'')), bare_world\<lparr>calls := 1\<rparr>)"
    by (simp add: invoke_def always_fails_def bare_world_def)
  ultimately show ?thesis
    by (simp add: provider)
qed

text \<open>
  Claim C10 as it is written fails on a target that names a timeout without a
  definition and a retry with one: the timeout guard is left out, the retry is not,
  and an operation that always fails is entered twice.
\<close>

theorem Provider_Policy_keeps_other_guards:
  "map_of (Timeouts dangling_config) ''missing'' = None
   \<and> (case fst (FromConfig no_expression dangling_config bare_world) of
        Inl err \<Rightarrow> None
      | Inr provider \<Rightarrow>
          NewExecutor Background (Some (Provider_Policy provider ''example_target''))
            (invoke always_fails) bare_world)
     = Some (Return Nil (Some (New ''test error'')), bare_world\<lparr>clock := 100000000, calls := 2\<rparr>)"
  by (simp add: dangling_config_def FromConfig_def configure_def newRetry_def parseDuration_def
      ParseInt_def isDigit_def wrap64_def Provider_Policy_def ev RetryLoop.simps)

end
